theory Spec2Isabelle
  imports Complex_Main "HOL-Library.Word"
begin

section \<open>JavaScript strings\<close>

text \<open>
  A JavaScript string is a sequence of UTF-16 code units; \<open>length\<close>, \<open>slice\<close>,
  \<open>includes\<close> and the regular expressions of the source (none has the \<open>u\<close> flag)
  all work on code units. The literals of the source that are not ASCII are written
  out as their code units.
\<close>

type_synonym jschar = "16 word"
type_synonym jsstring = "jschar list"

definition ascii :: "string \<Rightarrow> jsstring" where
  "ascii s = map of_char s"

definition isWhiteSpace :: "jschar \<Rightarrow> bool" where
  \<comment> \<open>the class \<open>\s\<close> and the set that \<open>trim\<close> strips: WhiteSpace and LineTerminator\<close>
  "isWhiteSpace c \<longleftrightarrow>
     c \<in> set [0x0009, 0x000A, 0x000B, 0x000C, 0x000D, 0x0020, 0x00A0, 0x1680,
              0x2000, 0x2001, 0x2002, 0x2003, 0x2004, 0x2005, 0x2006, 0x2007, 0x2008,
              0x2009, 0x200A, 0x2028, 0x2029, 0x202F, 0x205F, 0x3000, 0xFEFF]"

definition isDigit :: "jschar \<Rightarrow> bool" where
  \<comment> \<open>the class \<open>\d\<close>, which is \<open>[0-9]\<close>\<close>
  "isDigit c \<longleftrightarrow> 0x30 \<le> c \<and> c \<le> 0x39"

fun startsWith :: "jsstring \<Rightarrow> jsstring \<Rightarrow> bool" where
  "startsWith s [] = True"
| "startsWith [] (p # ps) = False"
| "startsWith (c # cs) (p # ps) = (c = p \<and> startsWith cs ps)"

fun str_includes :: "jsstring \<Rightarrow> jsstring \<Rightarrow> bool" where
  "str_includes [] k = startsWith [] k"
| "str_includes (c # cs) k = (startsWith (c # cs) k \<or> str_includes cs k)"

definition endsWith :: "jsstring \<Rightarrow> jsstring \<Rightarrow> bool" where
  "endsWith s p = startsWith (rev s) (rev p)"

definition str_trim :: "jsstring \<Rightarrow> jsstring" where
  "str_trim s = rev (dropWhile isWhiteSpace (rev (dropWhile isWhiteSpace s)))"

text \<open>\<open>s.replace(/\s+/g, ' ')\<close>: every maximal run of white space becomes one space.\<close>

function collapse_ws :: "jsstring \<Rightarrow> jsstring" where
  "collapse_ws [] = []"
| "collapse_ws (c # cs) =
     (if isWhiteSpace c then 0x20 # collapse_ws (dropWhile isWhiteSpace cs)
      else c # collapse_ws cs)"
  by pat_completeness auto
termination
  by (relation "measure length") (auto simp: length_dropWhile_le less_Suc_eq_le)

definition clean_text :: "jsstring \<Rightarrow> jsstring" where
  \<comment> \<open>\<open>content.replace(/\s+/g, ' ').trim()\<close>\<close>
  "clean_text content = str_trim (collapse_ws content)"

section \<open>JavaScript numbers and values\<close>

text \<open>
  A number is a double. A finite double is represented by the rational it denotes;
  conversion from a decimal literal overflows to an infinity and underflows to zero
  where IEEE 754 round-to-nearest does, but the rounding of the 53-bit significand
  inside the finite range is not modelled: a literal with more digits than a double
  holds keeps its exact value. So a comparison of such a literal with a bound of the
  code (\<open>> 1\<close>, \<open>< 0.4\<close>, \<open><= 3\<close>) can take the other branch here than in the code
  when the literal is within half a unit in the last place of the bound; on every
  other number the comparisons agree. Negative zero is not told from zero.
\<close>

datatype jsnum = Fin rat | PosInf | NegInf | NaN

definition double_of_rat :: "rat \<Rightarrow> jsnum" where
  "double_of_rat r =
     (if 2 ^ 1024 - 2 ^ 970 \<le> r then PosInf
      else if r \<le> - (2 ^ 1024 - 2 ^ 970) then NegInf
      else if \<bar>r\<bar> \<le> 1 / 2 ^ 1075 then Fin 0
      else Fin r)"

fun num_neg :: "jsnum \<Rightarrow> jsnum" where
  "num_neg (Fin r) = Fin (- r)"
| "num_neg PosInf = NegInf"
| "num_neg NegInf = PosInf"
| "num_neg NaN = NaN"

fun num_less :: "jsnum \<Rightarrow> jsnum \<Rightarrow> bool" where
  \<comment> \<open>the operator \<open><\<close> on two numbers: false when either is NaN\<close>
  "num_less NaN y = False"
| "num_less x NaN = False"
| "num_less (Fin a) (Fin b) = (a < b)"
| "num_less (Fin a) PosInf = True"
| "num_less (Fin a) NegInf = False"
| "num_less PosInf y = False"
| "num_less NegInf (Fin b) = True"
| "num_less NegInf PosInf = True"
| "num_less NegInf NegInf = False"

fun num_le :: "jsnum \<Rightarrow> jsnum \<Rightarrow> bool" where
  \<comment> \<open>the operator \<open><=\<close> on two numbers\<close>
  "num_le NaN y = False"
| "num_le x NaN = False"
| "num_le x y = (\<not> num_less y x)"

subsection \<open>StringToNumber\<close>

text \<open>
  \<open>Number(s)\<close> on a string follows the StringNumericLiteral grammar of ECMA-262:
  white space is trimmed, the empty string is 0, a literal may be \<open>Infinity\<close>, a
  decimal with optional sign, fraction and exponent, or an unsigned \<open>0x\<close>, \<open>0o\<close>
  or \<open>0b\<close> integer; anything else is NaN.
\<close>

definition digit_val :: "jschar \<Rightarrow> nat" where
  "digit_val c =
     (if isDigit c then unat c - 48
      else if 0x41 \<le> c \<and> c \<le> 0x46 then unat c - 55
      else unat c - 87)"

definition radix_value :: "nat \<Rightarrow> jsstring \<Rightarrow> nat" where
  "radix_value b ds = foldl (\<lambda>a c. b * a + digit_val c) 0 ds"

definition isHexDigit :: "jschar \<Rightarrow> bool" where
  "isHexDigit c \<longleftrightarrow>
     isDigit c \<or> (0x41 \<le> c \<and> c \<le> 0x46) \<or> (0x61 \<le> c \<and> c \<le> 0x66)"

definition pow10 :: "int \<Rightarrow> rat" where
  "pow10 e = (if 0 \<le> e then 10 ^ nat e else 1 / 10 ^ nat (- e))"

definition exponent_part :: "jsstring \<Rightarrow> int option" where
  \<comment> \<open>the rest of a literal after its digits: nothing, or \<open>e\<close>, a sign and digits\<close>
  "exponent_part s =
     (case s of
        [] \<Rightarrow> Some 0
      | c # r \<Rightarrow>
          if c = 0x65 \<or> c = 0x45 then
            (let (neg, ds) =
               (case r of
                  [] \<Rightarrow> (False, [])
                | d # r' \<Rightarrow>
                    if d = 0x2B then (False, r') else if d = 0x2D then (True, r')
                    else (False, r))
             in if ds \<noteq> [] \<and> list_all isDigit ds
                then Some (if neg then - int (radix_value 10 ds) else int (radix_value 10 ds))
                else None)
          else None)"

definition unsigned_decimal :: "jsstring \<Rightarrow> jsnum option" where
  \<comment> \<open>StrUnsignedDecimalLiteral; None when the string is not one\<close>
  "unsigned_decimal s =
     (if s = ascii ''Infinity'' then Some PosInf
      else
        let ip = takeWhile isDigit s;
            r1 = dropWhile isDigit s;
            (fp, r2) =
              (case r1 of
                 [] \<Rightarrow> ([], [])
               | c # r \<Rightarrow>
                   if c = 0x2E then (takeWhile isDigit r, dropWhile isDigit r)
                   else ([], r1))
        in if ip = [] \<and> fp = [] then None
           else
             (case exponent_part r2 of
                None \<Rightarrow> None
              | Some e \<Rightarrow>
                  Some (double_of_rat
                    (of_nat (radix_value 10 (ip @ fp)) * pow10 (e - int (length fp))))))"

definition nondecimal_literal :: "jsstring \<Rightarrow> nat option" where
  "nondecimal_literal s =
     (case s of
        z # x # ds \<Rightarrow>
          if z = 0x30 \<and> ds \<noteq> [] then
            (if (x = 0x78 \<or> x = 0x58) \<and> list_all isHexDigit ds
               then Some (radix_value 16 ds)
             else if (x = 0x6F \<or> x = 0x4F) \<and> list_all (\<lambda>c. 0x30 \<le> c \<and> c \<le> 0x37) ds
               then Some (radix_value 8 ds)
             else if (x = 0x62 \<or> x = 0x42) \<and> list_all (\<lambda>c. c = 0x30 \<or> c = 0x31) ds
               then Some (radix_value 2 ds)
             else None)
          else None
      | _ \<Rightarrow> None)"

definition StringToNumber :: "jsstring \<Rightarrow> jsnum" where
  "StringToNumber str =
     (let s = str_trim str in
      case s of
        [] \<Rightarrow> Fin 0
      | c # r \<Rightarrow>
          (case nondecimal_literal s of
             Some n \<Rightarrow> double_of_rat (of_nat n)
           | None \<Rightarrow>
               if c = 0x2B then (case unsigned_decimal r of Some v \<Rightarrow> v | None \<Rightarrow> NaN)
               else if c = 0x2D
                 then (case unsigned_decimal r of Some v \<Rightarrow> num_neg v | None \<Rightarrow> NaN)
               else (case unsigned_decimal s of Some v \<Rightarrow> v | None \<Rightarrow> NaN)))"

subsection \<open>Values\<close>

text \<open>
  The replies of the inference service are parsed with \<open>JSON.parse\<close> and cast to the
  declared interfaces without any check, so a field may hold any value. An object is
  the list of its own properties.
\<close>

datatype jsvalue =
    JUndefined
  | JNull
  | JBool bool
  | JNum jsnum
  | JStr jsstring
  | JArr "jsvalue list"
  | JObj "(jsstring \<times> jsvalue) list"

fun truthy :: "jsvalue \<Rightarrow> bool" where
  "truthy JUndefined = False"
| "truthy JNull = False"
| "truthy (JBool b) = b"
| "truthy (JNum n) = (n \<noteq> Fin 0 \<and> n \<noteq> NaN)"
| "truthy (JStr s) = (s \<noteq> [])"
| "truthy (JArr xs) = True"
| "truthy (JObj kvs) = True"

definition js_or :: "jsvalue \<Rightarrow> jsvalue \<Rightarrow> jsvalue" where
  \<comment> \<open>\<open>a || b\<close>\<close>
  "js_or a b = (if truthy a then a else b)"

definition nullish :: "jsvalue \<Rightarrow> bool" where
  "nullish v \<longleftrightarrow> v = JUndefined \<or> v = JNull"

definition js_coalesce :: "jsvalue \<Rightarrow> jsvalue \<Rightarrow> jsvalue" where
  \<comment> \<open>\<open>a ?? b\<close>\<close>
  "js_coalesce a b = (if nullish a then b else a)"

fun get :: "jsvalue \<Rightarrow> jsstring \<Rightarrow> jsvalue" where
  \<comment> \<open>\<open>v?.k\<close> for the property names the code reads: none of them is a property
      of a primitive, of an array or of \<open>Object.prototype\<close>\<close>
  "get (JObj kvs) k = (case map_of kvs k of Some v \<Rightarrow> v | None \<Rightarrow> JUndefined)"
| "get v k = JUndefined"

fun isFiniteNumber :: "jsvalue \<Rightarrow> bool" where
  \<comment> \<open>\<open>Number.isFinite(v)\<close>: no coercion\<close>
  "isFiniteNumber (JNum (Fin r)) = True"
| "isFiniteNumber v = False"

subsection \<open>ToString and ToNumber\<close>

text \<open>
  \<open>Number::toString\<close> of ECMA-262 writes a finite number \<open>s \<times> 10\<^sup>e\<close>, with \<open>s\<close> a
  natural number of \<open>k\<close> digits not ending in 0 and \<open>n = k + e\<close>, in one of five
  layouts chosen by \<open>n\<close>. A number of this model that is finite comes from a decimal,
  hexadecimal, octal or binary literal, so it has such a form; for a rational that has
  none the result is the empty string.
\<close>

function count_factor :: "nat \<Rightarrow> nat \<Rightarrow> nat" where
  "count_factor p n =
     (if p \<le> 1 \<or> n = 0 \<or> n mod p \<noteq> 0 then 0 else Suc (count_factor p (n div p)))"
  by pat_completeness auto
termination
  by (relation "measure snd") auto

declare count_factor.simps [simp del]

function digits_of :: "nat \<Rightarrow> jsstring" where
  "digits_of n =
     (if n < 10 then [of_nat (48 + n)] else digits_of (n div 10) @ [of_nat (48 + n mod 10)])"
  by pat_completeness auto
termination
  by (relation "measure id") auto

declare digits_of.simps [simp del]

definition decimal_parts :: "rat \<Rightarrow> (nat \<times> int) option" where
  \<comment> \<open>for \<open>r > 0\<close>: \<open>s\<close> and \<open>e\<close> with \<open>r = s \<times> 10\<^sup>e\<close> and \<open>s\<close> not ending in 0\<close>
  "decimal_parts r =
     (let (p, q) = quotient_of r;
          m = max (count_factor 2 (nat q)) (count_factor 5 (nat q))
      in if (nat p * 10 ^ m) mod nat q \<noteq> 0 then None
         else
           let N = (nat p * 10 ^ m) div nat q; t = count_factor 10 N
           in Some (N div 10 ^ t, int t - int m))"

definition zeros :: "nat \<Rightarrow> jsstring" where
  "zeros n = replicate n 0x30"

definition exponent_suffix :: "int \<Rightarrow> jsstring" where
  \<comment> \<open>\<open>e\<close>, the sign of \<open>n - 1\<close> and its digits\<close>
  "exponent_suffix n =
     0x65 # (if 0 \<le> n - 1 then 0x2B else 0x2D) # digits_of (nat \<bar>n - 1\<bar>)"

fun NumberToString :: "jsnum \<Rightarrow> jsstring" where
  "NumberToString NaN = ascii ''NaN''"
| "NumberToString PosInf = ascii ''Infinity''"
| "NumberToString NegInf = ascii ''-Infinity''"
| "NumberToString (Fin r) =
     (if r = 0 then ascii ''0''
      else
        (case decimal_parts \<bar>r\<bar> of
           None \<Rightarrow> []
         | Some (s, e) \<Rightarrow>
             let ds = digits_of s; k = int (length ds); n = k + e;
                 body =
                   (if k \<le> n \<and> n \<le> 21 then ds @ zeros (nat (n - k))
                    else if 0 < n \<and> n \<le> 21 then take (nat n) ds @ 0x2E # drop (nat n) ds
                    else if - 6 < n \<and> n \<le> 0 then ascii ''0.'' @ zeros (nat (- n)) @ ds
                    else if k = 1 then ds @ exponent_suffix n
                    else take 1 ds @ 0x2E # drop 1 ds @ exponent_suffix n)
             in if r < 0 then 0x2D # body else body))"

fun join_comma :: "jsstring list \<Rightarrow> jsstring" where
  "join_comma [] = []"
| "join_comma [s] = s"
| "join_comma (s # t # ss) = s @ 0x2C # join_comma (t # ss)"

fun those_all :: "'a option list \<Rightarrow> 'a list option" where
  "those_all [] = Some []"
| "those_all (None # xs) = None"
| "those_all (Some x # xs) = (case those_all xs of None \<Rightarrow> None | Some ys \<Rightarrow> Some (x # ys))"

text \<open>
  ToString of a value, None when it throws a TypeError. An array is joined with
  commas, its null and undefined elements as empty strings. An object that
  \<open>JSON.parse\<close> or the code built has no callable property: with an own property
  \<open>toString\<close> no conversion method is left and ToPrimitive throws, and without one
  \<open>Object.prototype.toString\<close> gives \<open>[object Object]\<close>.
\<close>

fun ToString :: "jsvalue \<Rightarrow> jsstring option" where
  "ToString JUndefined = Some (ascii ''undefined'')"
| "ToString JNull = Some (ascii ''null'')"
| "ToString (JBool b) = Some (if b then ascii ''true'' else ascii ''false'')"
| "ToString (JNum n) = Some (NumberToString n)"
| "ToString (JStr s) = Some s"
| "ToString (JArr xs) =
     map_option join_comma
       (those_all (map (\<lambda>x. if x = JUndefined \<or> x = JNull then Some [] else ToString x) xs))"
| "ToString (JObj kvs) =
     (if map_of kvs (ascii ''toString'') \<noteq> None then None
      else Some (ascii ''[object Object]''))"

text \<open>
  \<open>Number(v)\<close>, None when it throws. ToPrimitive with hint number ends, for an array
  and for an object, in the same string as ToString.
\<close>

fun ToNumber :: "jsvalue \<Rightarrow> jsnum option" where
  "ToNumber JUndefined = Some NaN"
| "ToNumber JNull = Some (Fin 0)"
| "ToNumber (JBool b) = Some (if b then Fin 1 else Fin 0)"
| "ToNumber (JNum n) = Some n"
| "ToNumber (JStr s) = Some (StringToNumber s)"
| "ToNumber v = map_option StringToNumber (ToString v)"

section \<open>The classification result\<close>

record AIRouteResponse =
  route_type :: jsvalue
  confidence :: jsvalue
  summary :: jsvalue
  data :: jsvalue

section \<open>String constants of the source\<close>

definition zh_other :: jsstring where
  \<comment> \<open>the default category label of finance and inventory records\<close>
  "zh_other =
     [0x5176, 0x4ED6]"

definition zh_uncategorized :: jsstring where
  \<comment> \<open>the label of inferTodoCategoryFromText when no keyword matches\<close>
  "zh_uncategorized =
     [0x672A, 0x5206, 0x7C7B]"

definition zh_unnamed_task :: jsstring where
  \<comment> \<open>the placeholder title of a todo record\<close>
  "zh_unnamed_task =
     [0x672A, 0x547D, 0x540D, 0x4EFB, 0x52A1]"

definition zh_unnamed_item :: jsstring where
  \<comment> \<open>the placeholder name of an inventory record\<close>
  "zh_unnamed_item =
     [0x672A, 0x547D, 0x540D, 0x7269, 0x54C1]"

definition zh_ge :: jsstring where
  \<comment> \<open>the generic counting unit\<close>
  "zh_ge =
     [0x4E2A]"

definition zh_empty_content :: jsstring where
  \<comment> \<open>the summary buildSummaryFromText gives for blank text\<close>
  "zh_empty_content =
     [0x5185, 0x5BB9, 0x4E3A, 0x7A7A]"

definition zh_repaired :: jsstring where
  \<comment> \<open>the summary extractRouteFromText gives when the reply has none\<close>
  "zh_repaired =
     [0x89E3, 0x6790, 0x4E0D, 0x5B8C, 0x6574, 0xFF0C, 0x5DF2, 0x81EA, 0x52A8, 0x4FEE,
     0x590D]"

definition msg_format_error :: jsstring where
  \<comment> \<open>summary of the failure result when the last error message contains JSON\<close>
  "msg_format_error =
     [0x0041, 0x0049, 0x0020, 0x54CD, 0x5E94, 0x683C, 0x5F0F, 0x9519, 0x8BEF, 0xFF0C,
     0x8BF7, 0x91CD, 0x8BD5]"

definition msg_network_error :: jsstring where
  \<comment> \<open>summary of the failure result otherwise\<close>
  "msg_network_error =
     [0x5206, 0x6790, 0x5931, 0x8D25, 0xFF0C, 0x8BF7, 0x68C0, 0x67E5, 0x7F51, 0x7EDC,
     0x8FDE, 0x63A5]"

definition financeKeywords :: "jsstring list" where
  \<comment> \<open>line 610\<close>
  "financeKeywords =
     [[0x82B1], [0x82B1, 0x8D39], [0x4ED8, 0x6B3E], [0x652F, 0x4ED8], [0x6D88, 0x8D39],
     [0x4E70], [0x8D2D, 0x4E70], [0x8D26, 0x5355], [0x6536, 0x636E], [0x8D39, 0x7528],
     [0x00A5], [0x5143]]"

definition todoKeywords :: "jsstring list" where
  \<comment> \<open>line 611\<close>
  "todoKeywords =
     [[0x8981, 0x505A], [0x9700, 0x8981], [0x8BB0, 0x5F97], [0x63D0, 0x9192], [0x4EFB,
     0x52A1], [0x8BA1, 0x5212], [0x5B89, 0x6392], [0x5F85, 0x529E]]"

definition inventoryKeywords :: "jsstring list" where
  \<comment> \<open>line 612\<close>
  "inventoryKeywords =
     [[0x5E93, 0x5B58], [0x5269, 0x4F59], [0x8FD8, 0x6709], [0x8865, 0x5145], [0x7528,
     0x5B8C], [0x5B58, 0x5165], [0x653E, 0x5165], [0x653E, 0x5728], [0x51B0, 0x7BB1],
     [0x51B7, 0x51BB], [0x51B7, 0x85CF]]"

definition amountUnits :: "jsstring list" where
  \<comment> \<open>the alternatives of the unit group of the amount pattern, line 618\<close>
  "amountUnits =
     [[0x5143], [0x5757], [0x00A5]]"

definition quantityUnits :: "jsstring list" where
  \<comment> \<open>the alternatives of the unit group of the quantity pattern, line 619\<close>
  "quantityUnits =
     [[0x4E2A], [0x74F6], [0x888B], [0x76D2], [0x65A4], [0x514B], [0x5305], [0x7BB1],
     [0x4EF6], [0x652F], [0x7247]]"

definition zh_freezer_kw :: jsstring where
  \<comment> \<open>line 631\<close>
  "zh_freezer_kw =
     [0x51B7, 0x51BB]"

definition zh_fridge_kw :: jsstring where
  \<comment> \<open>line 631\<close>
  "zh_fridge_kw =
     [0x51B0, 0x7BB1]"

definition zh_chilled_kw :: jsstring where
  \<comment> \<open>line 631\<close>
  "zh_chilled_kw =
     [0x51B7, 0x85CF]"

definition categories :: "(jsstring \<times> jsstring list) list" where
  \<comment> \<open>label and keywords of each category, in the order of lines 588 to 594\<close>
  "categories =
     [([0x5DE5, 0x4F5C], [[0x4F1A, 0x8BAE], [0x5BA2, 0x6237], [0x65B9, 0x6848], [0x6C47,
            0x62A5], [0x9879, 0x76EE], [0x540C, 0x4E8B], [0x5468, 0x62A5], [0x5BF9, 0x63A5]]),
            ([0x5B66, 0x4E60], [[0x5B66, 0x4E60], [0x8BFE, 0x7A0B], [0x590D, 0x4E60], [0x4F5C,
            0x4E1A], [0x8003, 0x8BD5], [0x9605, 0x8BFB], [0x7B14, 0x8BB0]]),
            ([0x5065, 0x5EB7], [[0x5065, 0x8EAB], [0x8DD1, 0x6B65], [0x4F53, 0x68C0], [0x5403,
            0x836F], [0x770B, 0x533B, 0x751F], [0x953B, 0x70BC]]),
            ([0x8D2D, 0x7269], [[0x4E70], [0x91C7, 0x8D2D], [0x4E0B, 0x5355], [0x8D85, 0x5E02],
            [0x8D2D, 0x7269], [0x5FEB, 0x9012]]),
            ([0x51FA, 0x884C], [[0x51FA, 0x5DEE], [0x65C5, 0x884C], [0x673A, 0x7968], [0x9AD8,
            0x94C1], [0x822A, 0x73ED], [0x9152, 0x5E97]]),
            ([0x751F, 0x6D3B], [[0x5BB6, 0x52A1], [0x7F34, 0x8D39], [0x6C34, 0x7535], [0x6536,
            0x62FE], [0x505A, 0x996D], [0x6253, 0x626B]]),
            ([0x7075, 0x611F], [[0x7075, 0x611F], [0x60F3, 0x6CD5], [0x70B9, 0x5B50], [0x0069,
            0x0064, 0x0065, 0x0061], [0x4E3B, 0x610F]])]"

section \<open>The heuristic fallback classifier\<close>

definition buildSummaryFromText :: "jsstring \<Rightarrow> jsstring" where
  "buildSummaryFromText content =
     (let cleaned = clean_text content in
      if cleaned = [] then zh_empty_content
      else if length cleaned > 40 then take 40 cleaned @ ascii ''...'' else cleaned)"

definition inferTodoCategoryFromText :: "jsstring \<Rightarrow> jsstring" where
  "inferTodoCategoryFromText content =
     (let cleaned = clean_text content in
      if cleaned = [] then zh_uncategorized
      else
        (case find (\<lambda>category. list_ex (\<lambda>keyword. str_includes cleaned keyword) (snd category))
                categories of
           Some category \<Rightarrow> fst category
         | None \<Rightarrow> zh_uncategorized))"

text \<open>
  The patterns of lines 618 and 619 differ in their units only:
  \<open>/(\d+(?:\.\d+)?)(?:\s*(UNITS))?/\<close>. The leftmost match starts at the first digit
  of the text; every later part of the pattern is greedy and optional, so group 1 is
  the longest run of digits there with, if a dot and a digit follow, the dot and the
  digits after it, and group 2 is the unit found after any white space, if there is one.
  The result is None when the pattern does not match, else groups 1 and 2.
\<close>

definition match_number_unit ::
  "jsstring list \<Rightarrow> jsstring \<Rightarrow> (jsstring \<times> jsstring option) option" where
  "match_number_unit units s =
     (case dropWhile (\<lambda>c. \<not> isDigit c) s of
        [] \<Rightarrow> None
      | d # ds \<Rightarrow>
          let ip = takeWhile isDigit (d # ds);
              r1 = dropWhile isDigit (d # ds);
              (g1, r2) =
                (case r1 of
                   c # f # r \<Rightarrow>
                     if c = 0x2E \<and> isDigit f
                     then (ip @ c # takeWhile isDigit (f # r), dropWhile isDigit (f # r))
                     else (ip, r1)
                 | _ \<Rightarrow> (ip, r1))
          in Some (g1, find (\<lambda>u. startsWith (dropWhile isWhiteSpace r2) u) units))"

definition inferRouteFromText :: "jsstring \<Rightarrow> AIRouteResponse option" where
  "inferRouteFromText content =
     (let cleaned = clean_text content in
      if cleaned = [] then None
      else
        let hasFinance = list_ex (\<lambda>keyword. str_includes cleaned keyword) financeKeywords;
            hasTodo = list_ex (\<lambda>keyword. str_includes cleaned keyword) todoKeywords;
            hasInventory = list_ex (\<lambda>keyword. str_includes cleaned keyword) inventoryKeywords;
            amountMatch = match_number_unit amountUnits cleaned;
            quantityMatch = match_number_unit quantityUnits cleaned
        in
          if hasInventory \<and> \<not> hasFinance then
            (let quantity = (case quantityMatch of
                               Some m \<Rightarrow> JNum (StringToNumber (fst m))
                             | None \<Rightarrow> JNum (Fin 1));
                 unit = (case quantityMatch of
                           Some (g1, Some u) \<Rightarrow> js_or (JStr u) (JStr zh_ge)
                         | _ \<Rightarrow> JStr zh_ge)
             in Some \<lparr>route_type = JStr (ascii ''inventory''),
                      confidence = JNum (Fin (4 / 10)),
                      summary = JStr (buildSummaryFromText cleaned),
                      data = JObj
                        [(ascii ''name'', JStr (buildSummaryFromText cleaned)),
                         (ascii ''category'', JStr zh_other),
                         (ascii ''storage_zone'',
                            if str_includes cleaned zh_freezer_kw then JStr (ascii ''Freezer'')
                            else if str_includes cleaned zh_fridge_kw
                                    \<or> str_includes cleaned zh_chilled_kw
                              then JStr (ascii ''Fridge'')
                            else JStr (ascii ''Other'')),
                         (ascii ''quantity'',
                            if isFiniteNumber quantity then quantity else JNum (Fin 1)),
                         (ascii ''unit'', unit)]\<rparr>)
          else if hasFinance \<and> amountMatch \<noteq> None then
            (let amount = JNum (StringToNumber (fst (the amountMatch)))
             in Some \<lparr>route_type = JStr (ascii ''finance''),
                      confidence = JNum (Fin (4 / 10)),
                      summary = JStr (buildSummaryFromText cleaned),
                      data = JObj
                        [(ascii ''amount'',
                            if isFiniteNumber amount then amount else JNum (Fin 0)),
                         (ascii ''category'', JStr zh_other),
                         (ascii ''description'', JStr (buildSummaryFromText cleaned))]\<rparr>)
          else if hasTodo then
            Some \<lparr>route_type = JStr (ascii ''todo''),
                  confidence = JNum (Fin (4 / 10)),
                  summary = JStr (buildSummaryFromText cleaned),
                  data = JObj
                    [(ascii ''title'', JStr (buildSummaryFromText cleaned)),
                     (ascii ''description'', JUndefined),
                     (ascii ''type'', JStr (ascii ''Todo'')),
                     (ascii ''priority'', JNum (Fin 2)),
                     (ascii ''category'', JStr (inferTodoCategoryFromText cleaned))]\<rparr>
          else None)"

text \<open>A keyword without white space, as all keywords of the source are.\<close>

definition solid :: "jsstring \<Rightarrow> bool" where
  "solid k \<longleftrightarrow> k \<noteq> [] \<and> list_all (\<lambda>c. \<not> isWhiteSpace c) k"

section \<open>The field normalizer\<close>

text \<open>
  \<open>normalizeRouteResponse\<close> returns None where the source throws: the todo branch
  converts the priority with \<open>Number\<close> and the title and description inside a template
  literal, and both conversions throw a TypeError on an object that has an own
  property \<open>toString\<close>. The spread \<open>...response\<close> keeps the other fields.
\<close>

definition normalizeRouteResponse :: "AIRouteResponse \<Rightarrow> AIRouteResponse option" where
  "normalizeRouteResponse response =
     (let d = data response in
      if route_type response = JStr (ascii ''finance'') then
        Some (response\<lparr>data := JObj
          [(ascii ''amount'', js_coalesce (get d (ascii ''amount'')) (JNum (Fin 0))),
           (ascii ''category'', js_or (get d (ascii ''category'')) (JStr zh_other)),
           (ascii ''description'', js_or (get d (ascii ''description'')) (summary response)),
           (ascii ''emotion_tag'', get d (ascii ''emotion_tag'')),
           (ascii ''is_essential'', get d (ascii ''is_essential'')),
           (ascii ''record_date'', get d (ascii ''record_date''))]\<rparr>)
      else if route_type response = JStr (ascii ''todo'') then
        (case ToNumber (get d (ascii ''priority'')) of
           None \<Rightarrow> None
         | Some priorityValue \<Rightarrow>
             (case ToString (js_or (get d (ascii ''title'')) (JStr [])) of
                None \<Rightarrow> None
              | Some title_text \<Rightarrow>
                  (case ToString (js_or (get d (ascii ''description'')) (JStr [])) of
                     None \<Rightarrow> None
                   | Some description_text \<Rightarrow>
                       let ruleCategory =
                             inferTodoCategoryFromText
                               (str_trim (title_text @ 0x20 # description_text));
                           category =
                             (if ruleCategory \<noteq> zh_uncategorized then JStr ruleCategory
                              else js_or (get d (ascii ''category'')) (JStr ruleCategory))
                       in Some (response\<lparr>data := JObj
                            [(ascii ''title'',
                                js_or (js_or (get d (ascii ''title'')) (summary response))
                                  (JStr zh_unnamed_task)),
                             (ascii ''description'', get d (ascii ''description'')),
                             (ascii ''type'', js_or (get d (ascii ''type'')) (JStr (ascii ''Todo''))),
                             (ascii ''priority'',
                                if isFiniteNumber (JNum priorityValue)
                                   \<and> num_le (Fin 1) priorityValue \<and> num_le priorityValue (Fin 3)
                                then JNum priorityValue else JNum (Fin 2)),
                             (ascii ''due_date'', get d (ascii ''due_date'')),
                             (ascii ''remind_at'', get d (ascii ''remind_at'')),
                             (ascii ''repeat_rule'', get d (ascii ''repeat_rule'')),
                             (ascii ''repeat_interval'', get d (ascii ''repeat_interval'')),
                             (ascii ''category'', category)]\<rparr>))))
      else if route_type response = JStr (ascii ''inventory'') then
        Some (response\<lparr>data := JObj
          [(ascii ''name'',
              js_or (js_or (get d (ascii ''name'')) (summary response)) (JStr zh_unnamed_item)),
           (ascii ''category'', js_or (get d (ascii ''category'')) (JStr zh_other)),
           (ascii ''storage_zone'', js_or (get d (ascii ''storage_zone'')) (JStr (ascii ''Other''))),
           (ascii ''quantity'',
              if isFiniteNumber (get d (ascii ''quantity'')) then get d (ascii ''quantity'')
              else JNum (Fin 1)),
           (ascii ''unit'', js_or (get d (ascii ''unit'')) (JStr zh_ge)),
           (ascii ''expiry_date'', get d (ascii ''expiry_date''))]\<rparr>)
      else Some response)"

section \<open>JSON.parse\<close>

text \<open>
  \<open>JSON.parse\<close> follows the JSON grammar of ECMA-404: white space is space, tab, line
  feed and carriage return; a number has no leading zero, digits after a dot and after
  an exponent letter; a string has no raw control character and the escapes
  \<open>\" \\ \/ \b \f \n \r \t \uXXXX\<close>; of two members with the same name the later
  value wins. The three mutually recursive parsers count their calls down from a bound
  that the length of the text never exhausts (lemma \<open>parse_value_fuel\<close> below).
\<close>

definition isJsonSpace :: "jschar \<Rightarrow> bool" where
  "isJsonSpace c \<longleftrightarrow> c = 0x20 \<or> c = 0x09 \<or> c = 0x0A \<or> c = 0x0D"

definition skip_space :: "jsstring \<Rightarrow> jsstring" where
  "skip_space s = dropWhile isJsonSpace s"

definition unescape :: "jschar \<Rightarrow> jschar option" where
  "unescape e =
     (if e = 0x22 then Some 0x22 else if e = 0x5C then Some 0x5C
      else if e = 0x2F then Some 0x2F else if e = 0x62 then Some 0x08
      else if e = 0x66 then Some 0x0C else if e = 0x6E then Some 0x0A
      else if e = 0x72 then Some 0x0D else if e = 0x74 then Some 0x09
      else None)"

definition cons_char :: "jschar \<Rightarrow> (jsstring \<times> jsstring) option \<Rightarrow> (jsstring \<times> jsstring) option" where
  "cons_char c r = map_option (\<lambda>(str, rest). (c # str, rest)) r"

text \<open>The characters of a string after its opening quote: the string and the text after
  its closing quote.\<close>

function json_chars :: "jsstring \<Rightarrow> (jsstring \<times> jsstring) option" where
  "json_chars [] = None"
| "json_chars (c # cs) =
     (if c = 0x22 then Some ([], cs)
      else if c = 0x5C then
        (case cs of
           [] \<Rightarrow> None
         | e # r \<Rightarrow>
             if e = 0x75 then
               (if 4 \<le> length r \<and> list_all isHexDigit (take 4 r)
                then cons_char (of_nat (radix_value 16 (take 4 r))) (json_chars (drop 4 r))
                else None)
             else
               (case unescape e of
                  None \<Rightarrow> None
                | Some ch \<Rightarrow> cons_char ch (json_chars r)))
      else if c < 0x20 then None
      else cons_char c (json_chars cs))"
  by pat_completeness auto
termination
  by (relation "measure length") auto

definition json_number :: "jsstring \<Rightarrow> (jsnum \<times> jsstring) option" where
  "json_number s =
     (let (neg, s1) = (case s of
                         [] \<Rightarrow> (False, s)
                       | c # r \<Rightarrow> if c = 0x2D then (True, r) else (False, s));
          ip = takeWhile isDigit s1;
          r1 = dropWhile isDigit s1;
          (fp, r2) = (case r1 of
                        [] \<Rightarrow> ([], r1)
                      | c # r \<Rightarrow>
                          if c = 0x2E then (takeWhile isDigit r, dropWhile isDigit r)
                          else ([], r1));
          has_exp = (case r2 of [] \<Rightarrow> False | c # r \<Rightarrow> c = 0x65 \<or> c = 0x45);
          r3 = (case tl r2 of
                  [] \<Rightarrow> []
                | c # r \<Rightarrow> if c = 0x2B \<or> c = 0x2D then r else c # r);
          eneg = (case tl r2 of [] \<Rightarrow> False | c # r \<Rightarrow> c = 0x2D);
          ed = takeWhile isDigit r3;
          e = (if has_exp
               then (if eneg then - int (radix_value 10 ed) else int (radix_value 10 ed))
               else 0);
          rest = (if has_exp then dropWhile isDigit r3 else r2);
          v = double_of_rat (of_nat (radix_value 10 (ip @ fp)) * pow10 (e - int (length fp)))
      in if ip = [] \<or> (1 < length ip \<and> hd ip = 0x30) then None
         else if r1 \<noteq> [] \<and> hd r1 = 0x2E \<and> fp = [] then None
         else if has_exp \<and> ed = [] then None
         else Some (if neg then num_neg v else v, rest))"

fun put_property ::
  "(jsstring \<times> jsvalue) list \<Rightarrow> jsstring \<Rightarrow> jsvalue \<Rightarrow> (jsstring \<times> jsvalue) list" where
  "put_property [] k v = [(k, v)]"
| "put_property ((k', v') # kvs) k v =
     (if k' = k then (k, v) # kvs else (k', v') # put_property kvs k v)"

text \<open>
  The own properties of an object are listed with the array indices first, in
  ascending order, and the other names after them in the order of their creation. An
  array index is the canonical decimal form of an integer below 4294967295.
\<close>

definition isArrayIndex :: "jsstring \<Rightarrow> bool" where
  "isArrayIndex k \<longleftrightarrow>
     k \<noteq> [] \<and> list_all isDigit k \<and> (k = [0x30] \<or> hd k \<noteq> 0x30)
     \<and> radix_value 10 k < 4294967295"

definition own_property_order :: "(jsstring \<times> jsvalue) list \<Rightarrow> (jsstring \<times> jsvalue) list" where
  "own_property_order kvs =
     sort_key (\<lambda>(k, v). radix_value 10 k) (filter (\<lambda>(k, v). isArrayIndex k) kvs)
     @ filter (\<lambda>(k, v). \<not> isArrayIndex k) kvs"

definition object_of :: "(jsstring \<times> jsvalue) list \<Rightarrow> jsvalue" where
  "object_of members =
     JObj (own_property_order (foldl (\<lambda>kvs (k, v). put_property kvs k v) [] members))"

datatype 'a parse = Parsed 'a jsstring | SyntaxError | Exhausted

fun parse_value :: "nat \<Rightarrow> jsstring \<Rightarrow> jsvalue parse"
  and parse_elements :: "nat \<Rightarrow> jsstring \<Rightarrow> jsvalue list parse"
  and parse_members :: "nat \<Rightarrow> jsstring \<Rightarrow> (jsstring \<times> jsvalue) list parse"
where
  "parse_value 0 s = Exhausted"
| "parse_value (Suc n) s =
     (case s of
        [] \<Rightarrow> SyntaxError
      | c # r \<Rightarrow>
          if c = 0x7B then
            (case skip_space r of
               [] \<Rightarrow> SyntaxError
             | c' # r' \<Rightarrow>
                 if c' = 0x7D then Parsed (JObj []) r'
                 else
                   (case parse_members n (c' # r') of
                      Parsed members rest \<Rightarrow> Parsed (object_of members) rest
                    | SyntaxError \<Rightarrow> SyntaxError
                    | Exhausted \<Rightarrow> Exhausted))
          else if c = 0x5B then
            (case skip_space r of
               [] \<Rightarrow> SyntaxError
             | c' # r' \<Rightarrow>
                 if c' = 0x5D then Parsed (JArr []) r'
                 else
                   (case parse_elements n (c' # r') of
                      Parsed elements rest \<Rightarrow> Parsed (JArr elements) rest
                    | SyntaxError \<Rightarrow> SyntaxError
                    | Exhausted \<Rightarrow> Exhausted))
          else if c = 0x22 then
            (case json_chars r of
               None \<Rightarrow> SyntaxError
             | Some (str, rest) \<Rightarrow> Parsed (JStr str) rest)
          else if startsWith s (ascii ''true'') then Parsed (JBool True) (drop 4 s)
          else if startsWith s (ascii ''false'') then Parsed (JBool False) (drop 5 s)
          else if startsWith s (ascii ''null'') then Parsed JNull (drop 4 s)
          else
            (case json_number s of
               None \<Rightarrow> SyntaxError
             | Some (v, rest) \<Rightarrow> Parsed (JNum v) rest))"
| "parse_elements 0 s = Exhausted"
| "parse_elements (Suc n) s =
     (case parse_value n s of
        Parsed v r \<Rightarrow>
          (case skip_space r of
             [] \<Rightarrow> SyntaxError
           | c # r' \<Rightarrow>
               if c = 0x5D then Parsed [v] r'
               else if c = 0x2C then
                 (case parse_elements n (skip_space r') of
                    Parsed vs rest \<Rightarrow> Parsed (v # vs) rest
                  | SyntaxError \<Rightarrow> SyntaxError
                  | Exhausted \<Rightarrow> Exhausted)
               else SyntaxError)
      | SyntaxError \<Rightarrow> SyntaxError
      | Exhausted \<Rightarrow> Exhausted)"
| "parse_members 0 s = Exhausted"
| "parse_members (Suc n) s =
     (case s of
        [] \<Rightarrow> SyntaxError
      | q # r \<Rightarrow>
          if q \<noteq> 0x22 then SyntaxError
          else
            (case json_chars r of
               None \<Rightarrow> SyntaxError
             | Some (k, r1) \<Rightarrow>
                 (case skip_space r1 of
                    [] \<Rightarrow> SyntaxError
                  | colon # r2 \<Rightarrow>
                      if colon \<noteq> 0x3A then SyntaxError
                      else
                        (case parse_value n (skip_space r2) of
                           Parsed v r3 \<Rightarrow>
                             (case skip_space r3 of
                                [] \<Rightarrow> SyntaxError
                              | c # r4 \<Rightarrow>
                                  if c = 0x7D then Parsed [(k, v)] r4
                                  else if c = 0x2C then
                                    (case parse_members n (skip_space r4) of
                                       Parsed kvs rest \<Rightarrow> Parsed ((k, v) # kvs) rest
                                     | SyntaxError \<Rightarrow> SyntaxError
                                     | Exhausted \<Rightarrow> Exhausted)
                                  else SyntaxError)
                         | SyntaxError \<Rightarrow> SyntaxError
                         | Exhausted \<Rightarrow> Exhausted))))"

definition JSON_parse :: "jsstring \<Rightarrow> jsvalue option" where
  \<comment> \<open>None when \<open>JSON.parse\<close> throws a SyntaxError\<close>
  "JSON_parse text =
     (case parse_value (2 * length text + 1) (skip_space text) of
        Parsed v rest \<Rightarrow> if skip_space rest = [] then Some v else None
      | SyntaxError \<Rightarrow> None
      | Exhausted \<Rightarrow> None)"

section \<open>The inference adapter\<close>

text \<open>
  The generative model is an external service: a call takes a request and either
  returns a text or throws. It is modelled as a function of an adapter state of any
  type and the request, giving the reply and the next state, so that the replies may
  depend on the request and on all earlier calls. The request holds what the code sets:
  the temperature, the output limit and the prompt; the constant system prompt that
  goes with every call is left to the adapter. A reply is the text of the response
  (before \<open>trim\<close>) or the message of the error thrown. Logging and the delays
  between attempts have no part in the results and are left out.
\<close>

datatype adapter_reply = Reply jsstring | Failure jsstring

record request =
  temperature :: rat
  maxOutputTokens :: nat
  prompt :: jsstring

type_synonym 's adapter = "'s \<Rightarrow> request \<Rightarrow> adapter_reply \<times> 's"

definition prompt_first :: jsstring where
  \<comment> \<open>line 697, the text before the content\<close>
  "prompt_first =
     [0x7528, 0x6237, 0x8F93, 0x5165, 0x5185, 0x5BB9, 0xFF1A, 0x000A]"

definition prompt_retry :: jsstring where
  \<comment> \<open>line 698, the text before the content\<close>
  "prompt_retry =
     [0x8BF7, 0x91CD, 0x65B0, 0x5206, 0x6790, 0x4EE5, 0x4E0B, 0x5185, 0x5BB9, 0xFF0C,
     0x786E, 0x4FDD, 0x8FD4, 0x56DE, 0x6709, 0x6548, 0x7684, 0x0020, 0x004A, 0x0053,
     0x004F, 0x004E, 0x0020, 0x683C, 0x5F0F, 0x3002, 0x5982, 0x679C, 0x4E0D, 0x786E,
     0x5B9A, 0x5206, 0x7C7B, 0xFF0C, 0x8BF7, 0x9009, 0x62E9, 0x0020, 0x0022, 0x0075,
     0x006E, 0x006B, 0x006E, 0x006F, 0x0077, 0x006E, 0x0022, 0x0020, 0x5E76, 0x63D0,
     0x4F9B, 0x5408, 0x7406, 0x7684, 0x0020, 0x0073, 0x0075, 0x006D, 0x006D, 0x0061,
     0x0072, 0x0079, 0x3002, 0x000A, 0x000A, 0x7528, 0x6237, 0x8F93, 0x5165, 0x5185,
     0x5BB9, 0xFF1A, 0x000A]"

definition batch_prompt_first_head :: jsstring where
  \<comment> \<open>line 825, the text before the content\<close>
  "batch_prompt_first_head =
     [0x7528, 0x6237, 0x8F93, 0x5165, 0x5185, 0x5BB9, 0xFF1A, 0x000A]"

definition batch_prompt_first_tail :: jsstring where
  \<comment> \<open>line 825, the text after the content\<close>
  "batch_prompt_first_tail =
     [0x000A, 0x000A, 0x5982, 0x679C, 0x5305, 0x542B, 0x591A, 0x6761, 0x72EC, 0x7ACB,
     0x8BB0, 0x5F55, 0xFF0C, 0x8BF7, 0x62C6, 0x5206, 0x4E3A, 0x591A, 0x4E2A, 0x5BF9,
     0x8C61, 0x5E76, 0x8FD4, 0x56DE, 0x0020, 0x004A, 0x0053, 0x004F, 0x004E, 0x003A,
     0x0020, 0x007B, 0x0020, 0x0022, 0x0069, 0x0074, 0x0065, 0x006D, 0x0073, 0x0022,
     0x003A, 0x0020, 0x005B, 0x0020, 0x002E, 0x002E, 0x002E, 0x0020, 0x005D, 0x0020,
     0x007D, 0x3002, 0x5982, 0x679C, 0x53EA, 0x6709, 0x4E00, 0x6761, 0xFF0C, 0x0069,
     0x0074, 0x0065, 0x006D, 0x0073, 0x0020, 0x53EA, 0x5305, 0x542B, 0x4E00, 0x6761,
     0x3002]"

definition batch_prompt_retry :: jsstring where
  \<comment> \<open>line 826, the text before the content\<close>
  "batch_prompt_retry =
     [0x8BF7, 0x91CD, 0x65B0, 0x5206, 0x6790, 0x4EE5, 0x4E0B, 0x5185, 0x5BB9, 0xFF0C,
     0x8F93, 0x51FA, 0x0020, 0x004A, 0x0053, 0x004F, 0x004E, 0x003A, 0x0020, 0x007B,
     0x0020, 0x0022, 0x0069, 0x0074, 0x0065, 0x006D, 0x0073, 0x0022, 0x003A, 0x0020,
     0x005B, 0x0020, 0x002E, 0x002E, 0x002E, 0x0020, 0x005D, 0x0020, 0x007D, 0xFF0C,
     0x6BCF, 0x4E2A, 0x0020, 0x0069, 0x0074, 0x0065, 0x006D, 0x0020, 0x5FC5, 0x987B,
     0x7B26, 0x5408, 0x0020, 0x0072, 0x006F, 0x0075, 0x0074, 0x0065, 0x005F, 0x0074,
     0x0079, 0x0070, 0x0065, 0x002F, 0x0073, 0x0075, 0x006D, 0x006D, 0x0061, 0x0072,
     0x0079, 0x002F, 0x0064, 0x0061, 0x0074, 0x0061, 0x0020, 0x7ED3, 0x6784, 0x3002,
     0x000A, 0x000A, 0x7528, 0x6237, 0x8F93, 0x5165, 0x5185, 0x5BB9, 0xFF1A, 0x000A]"

section \<open>The response parser\<close>

subsection \<open>Stripping the code fences\<close>

definition upper :: "jschar \<Rightarrow> jschar" where
  \<comment> \<open>the canonical form of a code unit under the flag \<open>i\<close>, as far as it can equal
      that of an ASCII pattern character\<close>
  "upper c = (if 0x61 \<le> c \<and> c \<le> 0x7A then c - 0x20 else c)"

fun startsWith_ci :: "jsstring \<Rightarrow> jsstring \<Rightarrow> bool" where
  "startsWith_ci s [] = True"
| "startsWith_ci [] (p # ps) = False"
| "startsWith_ci (c # cs) (p # ps) = (upper c = upper p \<and> startsWith_ci cs ps)"

text \<open>\<open>s.replace(/```json\s*/i, '')\<close>: the first fence with its language tag and the
  white space after it is removed.\<close>

fun remove_first_ci :: "jsstring \<Rightarrow> jsstring \<Rightarrow> jsstring" where
  "remove_first_ci pat [] = []"
| "remove_first_ci pat (c # cs) =
     (if startsWith_ci (c # cs) pat
      then dropWhile isWhiteSpace (drop (length pat) (c # cs))
      else c # remove_first_ci pat cs)"

definition remove_json_fence :: "jsstring \<Rightarrow> jsstring" where
  "remove_json_fence s = remove_first_ci (ascii ''```json'') s"

text \<open>\<open>s.replace(/```/g, '')\<close>: every fence is removed, from left to right.\<close>

function remove_all :: "jsstring \<Rightarrow> jsstring \<Rightarrow> jsstring" where
  "remove_all pat [] = []"
| "remove_all pat (c # cs) =
     (if pat \<noteq> [] \<and> startsWith (c # cs) pat then remove_all pat (drop (length pat) (c # cs))
      else c # remove_all pat cs)"
  by pat_completeness auto
termination
  by (relation "measure (\<lambda>(pat, s). length s)") auto

definition remove_fences :: "jsstring \<Rightarrow> jsstring" where
  "remove_fences s = remove_all (ascii ''```'') s"

definition strip_fences :: "jsstring \<Rightarrow> jsstring" where
  "strip_fences resultText = str_trim (remove_fences (remove_json_fence resultText))"

subsection \<open>Substring salvage\<close>

text \<open>\<open>s.match(/\{[\s\S]*\}/)\<close>: from the first opening brace to the last closing
  brace after it.\<close>

definition match_braces :: "jsstring \<Rightarrow> jsstring option" where
  "match_braces s =
     (case dropWhile (\<lambda>c. c \<noteq> 0x7B) s of
        [] \<Rightarrow> None
      | b # r \<Rightarrow>
          if 0x7D \<in> set r then Some (b # rev (dropWhile (\<lambda>c. c \<noteq> 0x7D) (rev r)))
          else None)"

subsection \<open>Field salvage\<close>

text \<open>
  The six patterns of \<open>extractRouteFromText\<close> start with a quoted property name, white
  space, a colon and white space, all under the flag \<open>i\<close>. A pattern is tried at each
  position of the text from the left; at one position no part of it can match in two
  ways, so the match there is found without backtracking.
\<close>

fun first_match :: "(jsstring \<Rightarrow> 'a option) \<Rightarrow> jsstring \<Rightarrow> 'a option" where
  "first_match f [] = f []"
| "first_match f (c # cs) = (case f (c # cs) of Some r \<Rightarrow> Some r | None \<Rightarrow> first_match f cs)"

definition quoted :: "string \<Rightarrow> jsstring" where
  "quoted key = 0x22 # ascii key @ [0x22]"

definition after_key :: "jsstring \<Rightarrow> jsstring \<Rightarrow> jsstring option" where
  \<comment> \<open>\<open>"KEY"\s*:\s*\<close> at the start of the text, \<open>pat\<close> being the quoted key: the
      text after it\<close>
  "after_key pat s =
     (if startsWith_ci s pat then
        (case dropWhile isWhiteSpace (drop (length pat) s) of
           [] \<Rightarrow> None
         | c # r \<Rightarrow> if c = 0x3A then Some (dropWhile isWhiteSpace r) else None)
      else None)"

definition route_type_at :: "jsstring \<Rightarrow> jsstring list \<Rightarrow> jsstring \<Rightarrow> jsstring option" where
  \<comment> \<open>\<open>/"route_type"\s*:\s*"(finance|todo|inventory|unknown)"/i\<close>, group 1; \<open>pat\<close> is
      the quoted key and \<open>alts\<close> the alternatives\<close>
  "route_type_at pat alts s =
     (case after_key pat s of
        None \<Rightarrow> None
      | Some r \<Rightarrow>
          (case r of
             [] \<Rightarrow> None
           | q # r' \<Rightarrow>
               if q \<noteq> 0x22 then None
               else
                 (case find (\<lambda>alt. startsWith_ci r' (alt @ [0x22])) alts of
                    None \<Rightarrow> None
                  | Some alt \<Rightarrow> Some (take (length alt) r'))))"

definition number_at :: "jsstring \<Rightarrow> jsstring \<Rightarrow> jsstring option" where
  \<comment> \<open>\<open>/"KEY"\s*:\s*([0-9.]+)/i\<close>, group 1\<close>
  "number_at pat s =
     (case after_key pat s of
        None \<Rightarrow> None
      | Some r \<Rightarrow>
          (let g = takeWhile (\<lambda>c. isDigit c \<or> c = 0x2E) r in if g = [] then None else Some g))"

definition string_at :: "jsstring \<Rightarrow> jsstring \<Rightarrow> jsstring option" where
  \<comment> \<open>\<open>/"KEY"\s*:\s*"([^"\n\r]*)/i\<close>, group 1: no closing quote is asked for\<close>
  "string_at pat s =
     (case after_key pat s of
        None \<Rightarrow> None
      | Some r \<Rightarrow>
          (case r of
             [] \<Rightarrow> None
           | q # r' \<Rightarrow>
               if q \<noteq> 0x22 then None
               else Some (takeWhile (\<lambda>c. c \<noteq> 0x22 \<and> c \<noteq> 0x0A \<and> c \<noteq> 0x0D) r')))"

definition extractRouteFromText :: "jsstring \<Rightarrow> AIRouteResponse option" where
  "extractRouteFromText text =
     (let routeTypeMatch =
            first_match
              (route_type_at (quoted ''route_type'')
                 [ascii ''finance'', ascii ''todo'', ascii ''inventory'', ascii ''unknown''])
              text;
          confidenceMatch = first_match (number_at (quoted ''confidence'')) text;
          summaryMatch = first_match (string_at (quoted ''summary'')) text
      in case routeTypeMatch of
           None \<Rightarrow> None
         | Some route_type_v \<Rightarrow>
             let confidence_v = (case confidenceMatch of
                                 Some g \<Rightarrow> JNum (StringToNumber g)
                               | None \<Rightarrow> JNum (Fin (1 / 2)));
                 summary_v = (case summaryMatch of Some g \<Rightarrow> g | None \<Rightarrow> zh_repaired);
                 data_v =
                   (if route_type_v = ascii ''finance'' then
                      (let amountMatch = first_match (number_at (quoted ''amount'')) text;
                           categoryMatch = first_match (string_at (quoted ''category'')) text;
                           descriptionMatch =
                             first_match (string_at (quoted ''description'')) text
                       in JObj
                            [(ascii ''amount'',
                                case amountMatch of
                                  Some g \<Rightarrow> JNum (StringToNumber g)
                                | None \<Rightarrow> JNum (Fin 0)),
                             (ascii ''category'',
                                case categoryMatch of Some g \<Rightarrow> JStr g | None \<Rightarrow> JStr zh_other),
                             (ascii ''description'',
                                case descriptionMatch of Some g \<Rightarrow> JStr g | None \<Rightarrow> JStr summary_v)])
                    else JNull)
             in Some \<lparr>route_type = JStr route_type_v,
                      confidence = (if isFiniteNumber confidence_v then confidence_v
                                    else JNum (Fin (1 / 2))),
                      summary = JStr summary_v,
                      data = data_v\<rparr>)"

subsection \<open>The three tiers\<close>

definition as_response :: "jsvalue \<Rightarrow> AIRouteResponse" where
  \<comment> \<open>the cast \<open>as AIRouteResponse\<close>: the four properties that the code reads\<close>
  "as_response v =
     \<lparr>route_type = get v (ascii ''route_type''), confidence = get v (ascii ''confidence''),
      summary = get v (ascii ''summary''), data = get v (ascii ''data'')\<rparr>"

text \<open>Lines 719 to 750: the parsed reply, or the message of the error thrown.\<close>

definition parse_reply :: "jsstring \<Rightarrow> jsstring \<Rightarrow> jsstring + AIRouteResponse" where
  "parse_reply resultText cleanedText =
     (case (if \<not> startsWith cleanedText [0x7B] \<or> \<not> str_includes cleanedText [0x7D] then None
            else JSON_parse cleanedText) of
        Some v \<Rightarrow> Inr (as_response v)
      | None \<Rightarrow>
          (case match_braces cleanedText of
             Some jsonMatch \<Rightarrow>
               (case JSON_parse jsonMatch of
                  Some v \<Rightarrow> Inr (as_response v)
                | None \<Rightarrow>
                    (case extractRouteFromText cleanedText of
                       Some fallback \<Rightarrow> Inr fallback
                     | None \<Rightarrow> Inl (ascii ''Invalid JSON response: '' @ resultText)))
           | None \<Rightarrow>
               (case extractRouteFromText cleanedText of
                  Some fallback \<Rightarrow> Inr fallback
                | None \<Rightarrow> Inl (ascii ''Invalid JSON response: '' @ resultText))))"

section \<open>The classifier\<close>

definition msg_invalid_structure :: jsstring where
  "msg_invalid_structure = ascii ''Invalid response structure: missing required fields''"

definition msg_type_error :: jsstring where
  \<comment> \<open>the message of the TypeError of ToPrimitive; its text is the engine's (this is
      V8's), and the code only asks whether it contains \<open>JSON\<close>\<close>
  "msg_type_error = ascii ''Cannot convert object to primitive value''"

definition legal_routes :: "jsvalue list" where
  "legal_routes =
     [JStr (ascii ''finance''), JStr (ascii ''todo''), JStr (ascii ''inventory''),
      JStr (ascii ''unknown'')]"

text \<open>Lines 752 to 765: the required fields, the route and the confidence.\<close>

definition validate_response :: "AIRouteResponse \<Rightarrow> jsstring + AIRouteResponse" where
  "validate_response parsed =
     (if \<not> truthy (route_type parsed) \<or> \<not> truthy (summary parsed)
      then Inl msg_invalid_structure
      else
        let p1 = (if route_type parsed \<notin> set legal_routes
                  then parsed\<lparr>route_type := JStr (ascii ''unknown'')\<rparr> else parsed);
            p2 = (if (case confidence p1 of
                        JNum c \<Rightarrow> num_less c (Fin 0) \<or> num_less (Fin 1) c
                      | _ \<Rightarrow> True)
                  then p1\<lparr>confidence := JNum (Fin (1 / 2))\<rparr> else p1)
        in Inr p2)"

definition low_confidence :: "AIRouteResponse \<Rightarrow> bool" where
  \<comment> \<open>\<open>normalized.confidence < 0.4\<close>, on the number that the validation leaves\<close>
  "low_confidence r = (case confidence r of JNum c \<Rightarrow> num_less c (Fin (4 / 10)) | _ \<Rightarrow> False)"

text \<open>Lines 706 to 780: what one attempt makes of the text of a reply, the result
  returned or the message of the error thrown.\<close>

definition finish_route :: "jsstring \<Rightarrow> jsstring \<Rightarrow> jsstring + AIRouteResponse" where
  "finish_route content text =
     (let resultText = str_trim text;
          cleanedText = strip_fences resultText
      in case parse_reply resultText cleanedText of
           Inl message \<Rightarrow> Inl message
         | Inr parsed \<Rightarrow>
             (case validate_response parsed of
                Inl message \<Rightarrow> Inl message
              | Inr valid \<Rightarrow>
                  (case normalizeRouteResponse valid of
                     None \<Rightarrow> Inl msg_type_error
                   | Some normalized \<Rightarrow>
                       if route_type normalized = JStr (ascii ''unknown'')
                          \<or> low_confidence normalized
                       then
                         (case inferRouteFromText content of
                            Some heuristic \<Rightarrow>
                              (case normalizeRouteResponse heuristic of
                                 None \<Rightarrow> Inl msg_type_error
                               | Some result \<Rightarrow> Inr result)
                          | None \<Rightarrow> Inr normalized)
                       else Inr normalized)))"

definition route_request :: "nat \<Rightarrow> jsstring \<Rightarrow> request" where
  "route_request attempt content =
     \<lparr>temperature = (if attempt > 1 then 1 / 10 else 3 / 10),
      maxOutputTokens = 1000,
      prompt = (if attempt = 1 then prompt_first @ content else prompt_retry @ content)\<rparr>"

definition route_attempt ::
  "'s adapter \<Rightarrow> 's \<Rightarrow> nat \<Rightarrow> jsstring \<Rightarrow> (jsstring + AIRouteResponse) \<times> 's" where
  "route_attempt gen s attempt content =
     (case gen s (route_request attempt content) of
        (Failure message, s') \<Rightarrow> (Inl message, s')
      | (Reply text, s') \<Rightarrow> (finish_route content text, s'))"

definition failure_result :: "jsstring option \<Rightarrow> AIRouteResponse" where
  \<comment> \<open>lines 796 to 803; the argument is \<open>lastError?.message\<close>\<close>
  "failure_result lastError =
     \<lparr>route_type = JStr (ascii ''unknown''),
      confidence = JNum (Fin 0),
      summary = JStr (if (case lastError of
                            None \<Rightarrow> False
                          | Some message \<Rightarrow> str_includes message (ascii ''JSON''))
                      then msg_format_error else msg_network_error),
      data = JNull\<rparr>"

function routeContent_loop ::
  "'s adapter \<Rightarrow> jsstring \<Rightarrow> nat \<Rightarrow> nat \<Rightarrow> jsstring option \<Rightarrow> 's \<Rightarrow> AIRouteResponse \<times> 's" where
  "routeContent_loop gen content maxRetries attempt lastError s =
     (if attempt \<le> maxRetries + 1 then
        (case route_attempt gen s attempt content of
           (Inr result, s') \<Rightarrow> (result, s')
         | (Inl message, s') \<Rightarrow>
             routeContent_loop gen content maxRetries (attempt + 1) (Some message) s')
      else (failure_result lastError, s))"
  by pat_completeness auto
termination
  by (relation "measure (\<lambda>(gen, content, maxRetries, attempt, lastError, s).
        maxRetries + 2 - attempt)") auto

declare routeContent_loop.simps [simp del]

definition routeContent ::
  "'s adapter \<Rightarrow> 's \<Rightarrow> jsstring \<Rightarrow> nat \<Rightarrow> AIRouteResponse \<times> 's" where
  \<comment> \<open>the result and the state of the adapter after the calls; \<open>maxRetries\<close> is 2 by default\<close>
  "routeContent gen s content maxRetries = routeContent_loop gen content maxRetries 1 None s"

section \<open>The batch classifier\<close>

definition batch_request :: "nat \<Rightarrow> jsstring \<Rightarrow> request" where
  "batch_request attempt content =
     \<lparr>temperature = (if attempt > 1 then 1 / 10 else 2 / 10),
      maxOutputTokens = 1600,
      prompt = (if attempt = 1 then batch_prompt_first_head @ content @ batch_prompt_first_tail
                else batch_prompt_retry @ content)\<rparr>"

text \<open>Lines 834 to 849: the normalized items of a reply, None when the attempt throws
  (\<open>JSON.parse\<close> fails, the parsed value is null, or the normalizer throws).\<close>

definition batch_items :: "jsstring \<Rightarrow> AIRouteResponse list option" where
  "batch_items text =
     (let resultText = str_trim text;
          cleanedText = strip_fences resultText
      in case JSON_parse cleanedText of
           None \<Rightarrow> None
         | Some parsed \<Rightarrow>
             if parsed = JNull then None
             else
               let items = (case get parsed (ascii ''items'') of
                              JArr xs \<Rightarrow> xs
                            | _ \<Rightarrow> [parsed])
               in those_all
                    (map (\<lambda>item. normalizeRouteResponse (as_response item))
                       (filter (\<lambda>item. truthy item \<and> truthy (get item (ascii ''route_type'')))
                          items)))"

text \<open>The body of the \<open>try\<close> of one attempt: the items it returns, or nothing when
  the call fails, the attempt throws or no item is left.\<close>

definition batch_attempt ::
  "'s adapter \<Rightarrow> 's \<Rightarrow> nat \<Rightarrow> jsstring \<Rightarrow> AIRouteResponse list option \<times> 's" where
  "batch_attempt gen s attempt content =
     (case gen s (batch_request attempt content) of
        (Failure message, s') \<Rightarrow> (None, s')
      | (Reply text, s') \<Rightarrow>
          (case batch_items text of
             Some (item # items) \<Rightarrow> (Some (item # items), s')
           | _ \<Rightarrow> (None, s')))"

function routeContentBatch_loop ::
  "'s adapter \<Rightarrow> jsstring \<Rightarrow> nat \<Rightarrow> nat \<Rightarrow> 's \<Rightarrow> AIRouteResponse list \<times> 's" where
  "routeContentBatch_loop gen content maxRetries attempt s =
     (if attempt \<le> maxRetries + 1 then
        (case batch_attempt gen s attempt content of
           (Some normalizedItems, s') \<Rightarrow> (normalizedItems, s')
         | (None, s') \<Rightarrow> routeContentBatch_loop gen content maxRetries (attempt + 1) s')
      else
        (case routeContent gen s content 2 of (fallback, s') \<Rightarrow> ([fallback], s')))"
  by pat_completeness auto
termination
  by (relation "measure (\<lambda>(gen, content, maxRetries, attempt, s). maxRetries + 2 - attempt)")
     auto

declare routeContentBatch_loop.simps [simp del]

definition routeContentBatch ::
  "'s adapter \<Rightarrow> 's \<Rightarrow> jsstring \<Rightarrow> nat \<Rightarrow> AIRouteResponse list \<times> 's" where
  \<comment> \<open>\<open>maxRetries\<close> is 1 by default\<close>
  "routeContentBatch gen s content maxRetries = routeContentBatch_loop gen content maxRetries 1 s"

section \<open>Runs in which every attempt fails\<close>

text \<open>
  The messages of the errors of \<open>count\<close> consecutive attempts of \<open>routeContent\<close>, the
  first with number \<open>attempt\<close> and from the adapter state \<open>s\<close>, and the state after
  them; None when one of these attempts returns a result.
\<close>

fun failed_attempts ::
  "'s adapter \<Rightarrow> jsstring \<Rightarrow> nat \<Rightarrow> nat \<Rightarrow> 's \<Rightarrow> (jsstring list \<times> 's) option" where
  "failed_attempts gen content attempt 0 s = Some ([], s)"
| "failed_attempts gen content attempt (Suc count) s =
     (case route_attempt gen s attempt content of
        (Inr result, s') \<Rightarrow> None
      | (Inl message, s') \<Rightarrow>
          (case failed_attempts gen content (Suc attempt) count s' of
             None \<Rightarrow> None
           | Some (messages, s'') \<Rightarrow> Some (message # messages, s'')))"

text \<open>
  The replies of the adapter to the requests of \<open>count\<close> consecutive attempts of
  \<open>routeContent\<close>, the first with number \<open>attempt\<close> and from the adapter state \<open>s\<close>,
  and the state after them. These are the calls that \<open>routeContent\<close> makes as long as
  no attempt returns.
\<close>

fun adapter_calls ::
  "'s adapter \<Rightarrow> jsstring \<Rightarrow> nat \<Rightarrow> nat \<Rightarrow> 's \<Rightarrow> adapter_reply list \<times> 's" where
  "adapter_calls gen content attempt 0 s = ([], s)"
| "adapter_calls gen content attempt (Suc count) s =
     (case gen s (route_request attempt content) of
        (reply, s') \<Rightarrow>
          (case adapter_calls gen content (Suc attempt) count s' of
             (replies, s'') \<Rightarrow> (reply # replies, s'')))"

text \<open>
  The adapter state after \<open>count\<close> consecutive attempts of \<open>routeContentBatch\<close> that
  all yield nothing; None when one of them returns items.
\<close>

fun empty_batch_attempts :: "'s adapter \<Rightarrow> jsstring \<Rightarrow> nat \<Rightarrow> nat \<Rightarrow> 's \<Rightarrow> 's option" where
  "empty_batch_attempts gen content attempt 0 s = Some s"
| "empty_batch_attempts gen content attempt (Suc count) s =
     (case batch_attempt gen s attempt content of
        (Some items, s') \<Rightarrow> None
      | (None, s') \<Rightarrow> empty_batch_attempts gen content (Suc attempt) count s')"

section \<open>The shape of a payload\<close>

text \<open>
  The properties that the normalizer writes for each route, in its order, and what its
  defaults guarantee of them. The normalizer does not check the type of a value that
  the reply supplies.
\<close>

definition finance_shape :: "jsvalue \<Rightarrow> bool" where
  "finance_shape d \<longleftrightarrow>
     (case d of
        JObj kvs \<Rightarrow>
          map fst kvs = [ascii ''amount'', ascii ''category'', ascii ''description'',
                         ascii ''emotion_tag'', ascii ''is_essential'', ascii ''record_date'']
          \<and> \<not> nullish (get d (ascii ''amount''))
          \<and> truthy (get d (ascii ''category''))
      | _ \<Rightarrow> False)"

definition todo_shape :: "jsvalue \<Rightarrow> bool" where
  "todo_shape d \<longleftrightarrow>
     (case d of
        JObj kvs \<Rightarrow>
          map fst kvs = [ascii ''title'', ascii ''description'', ascii ''type'', ascii ''priority'',
                         ascii ''due_date'', ascii ''remind_at'', ascii ''repeat_rule'',
                         ascii ''repeat_interval'', ascii ''category'']
          \<and> truthy (get d (ascii ''title''))
          \<and> truthy (get d (ascii ''type''))
          \<and> (case get d (ascii ''priority'') of
                JNum (Fin p) \<Rightarrow> 1 \<le> p \<and> p \<le> 3
              | _ \<Rightarrow> False)
          \<and> truthy (get d (ascii ''category''))
      | _ \<Rightarrow> False)"

definition inventory_shape :: "jsvalue \<Rightarrow> bool" where
  "inventory_shape d \<longleftrightarrow>
     (case d of
        JObj kvs \<Rightarrow>
          map fst kvs = [ascii ''name'', ascii ''category'', ascii ''storage_zone'',
                         ascii ''quantity'', ascii ''unit'', ascii ''expiry_date'']
          \<and> truthy (get d (ascii ''name''))
          \<and> truthy (get d (ascii ''category''))
          \<and> truthy (get d (ascii ''storage_zone''))
          \<and> isFiniteNumber (get d (ascii ''quantity''))
          \<and> truthy (get d (ascii ''unit''))
      | _ \<Rightarrow> False)"

definition payload_shape :: "AIRouteResponse \<Rightarrow> bool" where
  "payload_shape r \<longleftrightarrow>
     (route_type r = JStr (ascii ''finance'') \<longrightarrow> finance_shape (data r))
     \<and> (route_type r = JStr (ascii ''todo'') \<longrightarrow> todo_shape (data r))
     \<and> (route_type r = JStr (ascii ''inventory'') \<longrightarrow> inventory_shape (data r))"

text \<open>Clamping into \<open>[0, 1]\<close>, as the specification words the validation of the
  confidence; the code is \<open>validate_response\<close>.\<close>

definition spec_clamp :: "rat \<Rightarrow> rat" where
  "spec_clamp c = max 0 (min 1 c)"

section \<open>Concrete inputs\<close>

definition text_buy_fridge :: jsstring where
  \<comment> \<open>U+4E70 U+51B0 U+7BB1: the finance keyword U+4E70 and the inventory keyword
      U+51B0 U+7BB1, no digit, no todo keyword\<close>
  "text_buy_fridge = [0x4E70, 0x51B0, 0x7BB1]"

definition text_remember_milk :: jsstring where
  \<comment> \<open>U+8BB0 U+5F97 U+4E70 U+725B U+5976 U+653E U+51B0 U+7BB1: the todo keyword
      U+8BB0 U+5F97, the finance keyword U+4E70 and the inventory keyword U+51B0 U+7BB1\<close>
  "text_remember_milk = [0x8BB0, 0x5F97, 0x4E70, 0x725B, 0x5976, 0x653E, 0x51B0, 0x7BB1]"

definition todo_with_title :: AIRouteResponse where
  \<comment> \<open>title U+4E70 U+725B U+5976, summary U+4F1A U+8BAE\<close>
  "todo_with_title =
     \<lparr>route_type = JStr (ascii ''todo''), confidence = JNum (Fin (9 / 10)),
      summary = JStr [0x4F1A, 0x8BAE],
      data = JObj [(ascii ''title'', JStr [0x4E70, 0x725B, 0x5976]),
                   (ascii ''priority'', JNum (Fin 3))]\<rparr>"

definition todo_without_title :: AIRouteResponse where
  \<comment> \<open>summary U+4F1A U+8BAE, a keyword of the category U+5DE5 U+4F5C\<close>
  "todo_without_title =
     \<lparr>route_type = JStr (ascii ''todo''), confidence = JNum (Fin (9 / 10)),
      summary = JStr [0x4F1A, 0x8BAE],
      data = JObj [(ascii ''priority'', JNum (Fin 3))]\<rparr>"

definition text_milk :: jsstring where
  \<comment> \<open>the text of scenario D: U+51B0 U+7BB1 U+91CC U+8FD8 U+6709 U+4E24 U+74F6 U+725B U+5976\<close>
  "text_milk =
     [0x51B0, 0x7BB1, 0x91CC, 0x8FD8, 0x6709, 0x4E24, 0x74F6, 0x725B, 0x5976]"

definition text_coffee :: jsstring where
  \<comment> \<open>the text of scenarios A and B: U+82B1 U+4E86 25 U+5143 U+4E70 U+5496 U+5561\<close>
  "text_coffee =
     [0x82B1, 0x4E86, 0x0032, 0x0035, 0x5143, 0x4E70, 0x5496, 0x5561]"

definition text_hello :: jsstring where
  \<comment> \<open>a text without any keyword\<close>
  "text_hello =
     [0x0068, 0x0065, 0x006C, 0x006C, 0x006F]"

text \<open>
  The truncated reply of scenario B:
  \<^verbatim>\<open>{"route_type":"finance","confidence":0.8,"summary":"\<close> U+5496 U+5561 U+6D88 U+8D39
  \<^verbatim>\<open>","data":{"amount":25,"category":"\<close> U+9910
\<close>

definition reply_truncated :: jsstring where
  \<comment> \<open>see above\<close>
  "reply_truncated =
     [0x007B, 0x0022, 0x0072, 0x006F, 0x0075, 0x0074, 0x0065, 0x005F, 0x0074, 0x0079,
     0x0070, 0x0065, 0x0022, 0x003A, 0x0022, 0x0066, 0x0069, 0x006E, 0x0061, 0x006E,
     0x0063, 0x0065, 0x0022, 0x002C, 0x0022, 0x0063, 0x006F, 0x006E, 0x0066, 0x0069,
     0x0064, 0x0065, 0x006E, 0x0063, 0x0065, 0x0022, 0x003A, 0x0030, 0x002E, 0x0038,
     0x002C, 0x0022, 0x0073, 0x0075, 0x006D, 0x006D, 0x0061, 0x0072, 0x0079, 0x0022,
     0x003A, 0x0022, 0x5496, 0x5561, 0x6D88, 0x8D39, 0x0022, 0x002C, 0x0022, 0x0064,
     0x0061, 0x0074, 0x0061, 0x0022, 0x003A, 0x007B, 0x0022, 0x0061, 0x006D, 0x006F,
     0x0075, 0x006E, 0x0074, 0x0022, 0x003A, 0x0032, 0x0035, 0x002C, 0x0022, 0x0063,
     0x0061, 0x0074, 0x0065, 0x0067, 0x006F, 0x0072, 0x0079, 0x0022, 0x003A, 0x0022,
     0x9910]"

definition reply_overconfident :: jsstring where
  \<comment> \<open>\<^verbatim>\<open>{"route_type":"finance","confidence":1.5,"summary":"s"}\<close>\<close>
  "reply_overconfident =
     [0x007B, 0x0022, 0x0072, 0x006F, 0x0075, 0x0074, 0x0065, 0x005F, 0x0074, 0x0079,
     0x0070, 0x0065, 0x0022, 0x003A, 0x0022, 0x0066, 0x0069, 0x006E, 0x0061, 0x006E,
     0x0063, 0x0065, 0x0022, 0x002C, 0x0022, 0x0063, 0x006F, 0x006E, 0x0066, 0x0069,
     0x0064, 0x0065, 0x006E, 0x0063, 0x0065, 0x0022, 0x003A, 0x0031, 0x002E, 0x0035,
     0x002C, 0x0022, 0x0073, 0x0075, 0x006D, 0x006D, 0x0061, 0x0072, 0x0079, 0x0022,
     0x003A, 0x0022, 0x0073, 0x0022, 0x007D]"

definition reply_unknown_with_data :: jsstring where
  \<comment> \<open>\<^verbatim>\<open>{"route_type":"unknown","confidence":0.9,"summary":"s","data":{"k":1}}\<close>\<close>
  "reply_unknown_with_data =
     [0x007B, 0x0022, 0x0072, 0x006F, 0x0075, 0x0074, 0x0065, 0x005F, 0x0074, 0x0079,
     0x0070, 0x0065, 0x0022, 0x003A, 0x0022, 0x0075, 0x006E, 0x006B, 0x006E, 0x006F,
     0x0077, 0x006E, 0x0022, 0x002C, 0x0022, 0x0063, 0x006F, 0x006E, 0x0066, 0x0069,
     0x0064, 0x0065, 0x006E, 0x0063, 0x0065, 0x0022, 0x003A, 0x0030, 0x002E, 0x0039,
     0x002C, 0x0022, 0x0073, 0x0075, 0x006D, 0x006D, 0x0061, 0x0072, 0x0079, 0x0022,
     0x003A, 0x0022, 0x0073, 0x0022, 0x002C, 0x0022, 0x0064, 0x0061, 0x0074, 0x0061,
     0x0022, 0x003A, 0x007B, 0x0022, 0x006B, 0x0022, 0x003A, 0x0031, 0x007D, 0x007D]"

definition reply_garbage :: jsstring where
  "reply_garbage = ascii
     ''oops''"

definition reply_fields_only :: jsstring where
  \<comment> \<open>\<^verbatim>\<open>"route_type":"todo","summary":"x"\<close>\<close>
  "reply_fields_only =
     [0x0022, 0x0072, 0x006F, 0x0075, 0x0074, 0x0065, 0x005F, 0x0074, 0x0079, 0x0070,
     0x0065, 0x0022, 0x003A, 0x0022, 0x0074, 0x006F, 0x0064, 0x006F, 0x0022, 0x002C,
     0x0022, 0x0073, 0x0075, 0x006D, 0x006D, 0x0061, 0x0072, 0x0079, 0x0022, 0x003A,
     0x0022, 0x0078, 0x0022]"

definition message_network :: jsstring where
  "message_network = ascii
     ''Network request failed''"

definition message_html :: jsstring where
  "message_html = ascii
     ''Unexpected token < in JSON at position 0''"

text \<open>Adapters: one that always answers with the same text, two that always fail,
  one that fails twice and then answers with a text that is not parseable, and one that
  fails once and then answers with bare fields; their state counts the calls.\<close>

definition adapter_answering :: "jsstring \<Rightarrow> nat adapter" where
  "adapter_answering text s request = (Reply text, Suc s)"

definition adapter_down :: "nat adapter" where
  "adapter_down s request = (Failure message_network, Suc s)"

definition adapter_flaky :: "nat adapter" where
  "adapter_flaky s request =
     (if s < 2 then (Failure message_network, Suc s) else (Reply reply_garbage, Suc s))"

definition adapter_html_error :: "nat adapter" where
  "adapter_html_error s request = (Failure message_html, Suc s)"

definition adapter_recovering :: "nat adapter" where
  "adapter_recovering s request =
     (if s < 1 then (Failure message_network, Suc s) else (Reply reply_fields_only, Suc s))"

definition parsed_overconfident :: AIRouteResponse where
  \<comment> \<open>what \<open>JSON.parse\<close> makes of \<open>reply_overconfident\<close>\<close>
  "parsed_overconfident =
     \<lparr>route_type = JStr (ascii ''finance''), confidence = JNum (Fin (15 / 10)),
      summary = JStr (ascii ''s''), data = JUndefined\<rparr>"

section \<open>Evaluation\<close>

text \<open>
  The bounds of \<open>double_of_rat\<close> as numerals, \<open>2\<^sup>1\<^sup>0\<^sup>2\<^sup>4 - 2\<^sup>9\<^sup>7\<^sup>0\<close> and \<open>2\<^sup>1\<^sup>0\<^sup>7\<^sup>5\<close>, so that
  the conversion of a literal evaluates without computing the powers.
\<close>

lemma double_of_rat_code [code]:
  "double_of_rat r =
     (if 0xFFFFFFFFFFFFFC00000000000000000000000000000000000000000000000000000000000000000000000000000000000000000000000000000000000000000000000000000000000000000000000000000000000000000000000000000000000000000000000000000000000000000000000000000000000000000000000000 \<le> r then PosInf
      else if r \<le> - 0xFFFFFFFFFFFFFC00000000000000000000000000000000000000000000000000000000000000000000000000000000000000000000000000000000000000000000000000000000000000000000000000000000000000000000000000000000000000000000000000000000000000000000000000000000000000000000000000 then NegInf
      else if \<bar>r\<bar> \<le> 1 / 0x80000000000000000000000000000000000000000000000000000000000000000000000000000000000000000000000000000000000000000000000000000000000000000000000000000000000000000000000000000000000000000000000000000000000000000000000000000000000000000000000000000000000000000000000000000 then Fin 0
      else Fin r)"
  by (simp add: double_of_rat_def)

section \<open>Cleaning a text keeps its keywords and its digits\<close>

lemma startsWith_iff: "startsWith s k \<longleftrightarrow> (\<exists>ss. s = k @ ss)"
  by (induction s k rule: startsWith.induct) auto

lemma str_includes_iff: "str_includes s k \<longleftrightarrow> (\<exists>ps ss. s = ps @ k @ ss)"
proof (induction s)
  case Nil
  then show ?case by (simp add: startsWith_iff)
next
  case (Cons c cs)
  have "(\<exists>ps ss. c # cs = ps @ k @ ss) \<longleftrightarrow>
        (\<exists>ss. c # cs = k @ ss) \<or> (\<exists>ps ss. cs = ps @ k @ ss)"
    by (auto simp: Cons_eq_append_conv)
  with Cons show ?case by (simp add: startsWith_iff)
qed

lemma str_includes_rev: "str_includes (rev s) (rev k) = str_includes s k"
proof -
  have "(\<exists>ps ss. rev s = ps @ rev k @ ss) \<longleftrightarrow> (\<exists>ps ss. s = ps @ k @ ss)"
  proof
    assume "\<exists>ps ss. rev s = ps @ rev k @ ss"
    then obtain ps ss where "rev s = ps @ rev k @ ss" by blast
    then have "s = rev ss @ k @ rev ps" by (simp add: rev_swap)
    then show "\<exists>ps ss. s = ps @ k @ ss" by blast
  next
    assume "\<exists>ps ss. s = ps @ k @ ss"
    then obtain ps ss where "s = ps @ k @ ss" by blast
    then have "rev s = rev ss @ rev k @ rev ps" by simp
    then show "\<exists>ps ss. rev s = ps @ rev k @ ss" by blast
  qed
  then show ?thesis by (simp add: str_includes_iff)
qed

lemma solid_rev: "solid (rev k) = solid k"
  by (simp add: solid_def list_all_iff)

lemma startsWith_ws: "solid k \<Longrightarrow> isWhiteSpace c \<Longrightarrow> \<not> startsWith (c # cs) k"
  by (cases k) (auto simp: solid_def)

lemma str_includes_dropWhile:
  "solid k \<Longrightarrow> str_includes (dropWhile isWhiteSpace s) k = str_includes s k"
  by (induction s) (auto simp: startsWith_ws)

lemma str_includes_trim: "solid k \<Longrightarrow> str_includes (str_trim s) k = str_includes s k"
proof -
  assume k: "solid k"
  have "str_includes (str_trim s) k = str_includes (dropWhile isWhiteSpace (rev (dropWhile isWhiteSpace s))) (rev k)"
    unfolding str_trim_def
    using str_includes_rev[of "dropWhile isWhiteSpace (rev (dropWhile isWhiteSpace s))" "rev k"]
    by simp
  also have "\<dots> = str_includes (rev (dropWhile isWhiteSpace s)) (rev k)"
    using k by (simp add: str_includes_dropWhile solid_rev)
  also have "\<dots> = str_includes (dropWhile isWhiteSpace s) k"
    by (rule str_includes_rev)
  also have "\<dots> = str_includes s k"
    using k by (rule str_includes_dropWhile)
  finally show ?thesis .
qed

lemma space_isWhiteSpace: "isWhiteSpace 0x20"
  by (simp add: isWhiteSpace_def)

lemma startsWith_collapse:
  "list_all (\<lambda>c. \<not> isWhiteSpace c) k \<Longrightarrow> startsWith (collapse_ws s) k = startsWith s k"
proof (induction s arbitrary: k rule: collapse_ws.induct)
  case 1
  then show ?case by simp
next
  case (2 c cs)
  show ?case
  proof (cases k)
    case Nil
    then show ?thesis by simp
  next
    case (Cons a k')
    with 2 show ?thesis using space_isWhiteSpace by auto
  qed
qed

lemma str_includes_collapse:
  "solid k \<Longrightarrow> str_includes (collapse_ws s) k = str_includes s k"
proof (induction s rule: collapse_ws.induct)
  case 1
  then show ?case by simp
next
  case (2 c cs)
  show ?case
  proof (cases "isWhiteSpace c")
    case True
    with 2 show ?thesis
      using space_isWhiteSpace by (simp add: startsWith_ws str_includes_dropWhile)
  next
    case False
    have "startsWith (c # collapse_ws cs) k = startsWith (c # cs) k"
      using 2(3) by (cases k) (auto simp: solid_def startsWith_collapse)
    with False 2 show ?thesis by simp
  qed
qed

lemma str_includes_clean: "solid k \<Longrightarrow> str_includes (clean_text s) k = str_includes s k"
  by (simp add: clean_text_def str_includes_trim str_includes_collapse)

lemma digit_not_ws: "isDigit c \<Longrightarrow> \<not> isWhiteSpace c"
  unfolding isDigit_def isWhiteSpace_def by auto

lemma digit_dropWhile: "list_ex isDigit (dropWhile isWhiteSpace s) = list_ex isDigit s"
  by (induction s) (auto simp: digit_not_ws)

lemma digit_collapse: "list_ex isDigit (collapse_ws s) = list_ex isDigit s"
proof (induction s rule: collapse_ws.induct)
  case 1
  then show ?case by simp
next
  case (2 c cs)
  have "\<not> isDigit 0x20" by (simp add: isDigit_def)
  with 2 show ?case
    by (cases "isWhiteSpace c") (auto simp: digit_dropWhile digit_not_ws)
qed

lemma list_ex_rev: "list_ex P (rev xs) = list_ex P xs"
  by (simp add: list_ex_iff)

lemma digit_clean: "list_ex isDigit (clean_text s) = list_ex isDigit s"
  by (simp add: clean_text_def str_trim_def list_ex_rev digit_dropWhile digit_collapse)

lemma match_number_unit_None: "match_number_unit units s = None \<longleftrightarrow> \<not> list_ex isDigit s"
proof (cases "dropWhile (\<lambda>c. \<not> isDigit c) s")
  case Nil
  then have "\<forall>c \<in> set s. \<not> isDigit c"
    using dropWhile_eq_Nil_conv[of "\<lambda>c. \<not> isDigit c" s] by auto
  with Nil show ?thesis
    by (simp add: match_number_unit_def list_ex_iff del: dropWhile_eq_Nil_conv)
next
  case (Cons d ds)
  then have "\<not> (\<forall>c \<in> set s. \<not> isDigit c)"
    using dropWhile_eq_Nil_conv[of "\<lambda>c. \<not> isDigit c" s] by auto
  with Cons show ?thesis
    by (simp add: match_number_unit_def list_ex_iff Let_def case_prod_beta
             del: dropWhile_eq_Nil_conv)
qed

lemma keywords_solid:
  "list_all solid financeKeywords" "list_all solid todoKeywords" "list_all solid inventoryKeywords"
  by (simp_all add: solid_def financeKeywords_def todoKeywords_def inventoryKeywords_def isWhiteSpace_def)

lemma hasKeyword_clean:
  "list_all solid kws \<Longrightarrow>
   list_ex (\<lambda>keyword. str_includes (clean_text s) keyword) kws = list_ex (\<lambda>keyword. str_includes s keyword) kws"
  by (induction kws) (auto simp: str_includes_clean)

lemma clean_nonempty: "solid k \<Longrightarrow> str_includes s k \<Longrightarrow> clean_text s \<noteq> []"
  using str_includes_clean[of k s] by (cases k) (auto simp: solid_def)

section \<open>Property names\<close>

text \<open>Two ASCII literals are equal as code-unit strings exactly when they are equal.\<close>

lemma unat_of_char: "unat (of_char e :: 16 word) = of_char e"
proof -
  have "(of_char e :: nat) < 256"
    by (rule nat_of_char_less_256)
  moreover have "(256 :: nat) \<le> 2 ^ LENGTH(16)"
    by simp
  ultimately have "(of_char e :: nat) < 2 ^ LENGTH(16)"
    by (rule less_le_trans)
  then have "unat (of_nat (of_char e) :: 16 word) = of_char e"
    by (simp add: unat_of_nat take_bit_nat_eq_self)
  then show ?thesis by (simp add: of_nat_of_char)
qed

lemma of_char_word_eq_iff: "(of_char c :: 16 word) = of_char d \<longleftrightarrow> c = d"
proof
  assume "(of_char c :: 16 word) = of_char d"
  then have "unat (of_char c :: 16 word) = unat (of_char d :: 16 word)" by simp
  then have "(of_char c :: nat) = of_char d" by (simp only: unat_of_char)
  then show "c = d" by simp
qed simp

lemma ascii_eq_iff: "ascii s = ascii t \<longleftrightarrow> s = t"
proof (induction s arbitrary: t)
  case Nil
  then show ?case by (auto simp: ascii_def)
next
  case (Cons c s)
  then show ?case by (cases t) (auto simp: ascii_def of_char_word_eq_iff)
qed

section \<open>The priority of the heuristic rules\<close>

text \<open>
  Claim C4, as the code has it. The inventory rule of \<open>inferRouteFromText\<close> is guarded
  by \<open>hasInventory && !hasFinance\<close>, and the amount pattern matches exactly when the
  text has a digit. So a text with an inventory keyword, a finance keyword and no digit
  passes both the inventory rule and the finance rule: the result is the todo guess
  when the text has a todo keyword and null otherwise, never inventory and never finance.
\<close>

theorem inferRouteFromText_inventory_finance_no_amount:
  assumes inv: "list_ex (str_includes content) inventoryKeywords"
      and fin: "list_ex (str_includes content) financeKeywords"
      and noamt: "\<not> list_ex isDigit content"
  shows "inferRouteFromText content =
     (if list_ex (str_includes content) todoKeywords
      then Some \<lparr>route_type = JStr (ascii ''todo''),
                 confidence = JNum (Fin (4 / 10)),
                 summary = JStr (buildSummaryFromText (clean_text content)),
                 data = JObj
                   [(ascii ''title'', JStr (buildSummaryFromText (clean_text content))),
                    (ascii ''description'', JUndefined),
                    (ascii ''type'', JStr (ascii ''Todo'')),
                    (ascii ''priority'', JNum (Fin 2)),
                    (ascii ''category'', JStr (inferTodoCategoryFromText (clean_text content)))]\<rparr>
      else None)"
proof -
  from inv obtain k where k: "k \<in> set inventoryKeywords" "str_includes content k"
    by (auto simp: list_ex_iff)
  with keywords_solid(3) have "solid k" by (simp add: list_all_iff)
  with k have ne: "clean_text content \<noteq> []" by (simp add: clean_nonempty)
  have amt: "match_number_unit amountUnits (clean_text content) = None"
    using noamt by (simp add: match_number_unit_None digit_clean)
  show ?thesis
    using ne amt inv fin
    by (simp add: inferRouteFromText_def Let_def hasKeyword_clean keywords_solid)
qed

text \<open>The theorem at a text with a keyword of each of the three sets.\<close>

theorem inferRouteFromText_priority_witness:
  "list_ex (str_includes text_remember_milk) inventoryKeywords
   \<and> list_ex (str_includes text_remember_milk) financeKeywords
   \<and> \<not> list_ex isDigit text_remember_milk
   \<and> map_option route_type (inferRouteFromText text_remember_milk) = Some (JStr (ascii ''todo''))"
proof -
  have 1: "list_ex (str_includes text_remember_milk) inventoryKeywords" by code_simp
  have 2: "list_ex (str_includes text_remember_milk) financeKeywords" by code_simp
  have 3: "\<not> list_ex isDigit text_remember_milk" by code_simp
  have 4: "list_ex (str_includes text_remember_milk) todoKeywords" by code_simp
  show ?thesis
    using inferRouteFromText_inventory_finance_no_amount[OF 1 2 3] 1 2 3 4 by simp
qed

text \<open>
  The claim as the specification states it (the result is inventory) fails at a text
  with a finance and an inventory keyword and nothing else: the heuristic has no guess.
\<close>

theorem inferRouteFromText_priority_counterexample:
  "list_ex (str_includes text_buy_fridge) inventoryKeywords
   \<and> list_ex (str_includes text_buy_fridge) financeKeywords
   \<and> \<not> list_ex isDigit text_buy_fridge
   \<and> inferRouteFromText text_buy_fridge = None"
  by code_simp

section \<open>Idempotence of the normalizer\<close>

lemma js_or_idem: "js_or (js_or a b) b = js_or a b"
  by (simp add: js_or_def)

lemma js_or_truthy: "truthy a \<Longrightarrow> js_or a b = a"
  by (simp add: js_or_def)

lemma js_or_placeholder: "truthy p \<Longrightarrow> js_or (js_or (js_or (js_or a s) p) s) p = js_or (js_or a s) p"
  by (simp add: js_or_def)

lemma js_coalesce_idem: "js_coalesce (js_coalesce a b) b = js_coalesce a b"
  by (simp add: js_coalesce_def)

lemma isFiniteNumber_get: "isFiniteNumber v \<Longrightarrow> \<exists>r. v = JNum (Fin r)"
  by (cases v rule: isFiniteNumber.cases) auto

lemma normalize_finance_idem:
  assumes "route_type x = JStr (ascii ''finance'')" "normalizeRouteResponse x = Some y"
  shows "normalizeRouteResponse y = Some y"
proof -
  from assms have y: "y = x\<lparr>data := JObj
          [(ascii ''amount'', js_coalesce (get (data x) (ascii ''amount'')) (JNum (Fin 0))),
           (ascii ''category'', js_or (get (data x) (ascii ''category'')) (JStr zh_other)),
           (ascii ''description'', js_or (get (data x) (ascii ''description'')) (summary x)),
           (ascii ''emotion_tag'', get (data x) (ascii ''emotion_tag'')),
           (ascii ''is_essential'', get (data x) (ascii ''is_essential'')),
           (ascii ''record_date'', get (data x) (ascii ''record_date''))]\<rparr>"
    by (simp add: normalizeRouteResponse_def Let_def)
  show ?thesis
    unfolding y using assms(1)
    by (simp add: normalizeRouteResponse_def Let_def ascii_eq_iff js_or_idem js_coalesce_idem)
qed

lemma normalize_inventory_idem:
  assumes "route_type x = JStr (ascii ''inventory'')" "normalizeRouteResponse x = Some y"
  shows "normalizeRouteResponse y = Some y"
proof -
  have p: "truthy (JStr zh_unnamed_item)" by (simp add: zh_unnamed_item_def)
  from assms have y: "y = x\<lparr>data := JObj
          [(ascii ''name'',
              js_or (js_or (get (data x) (ascii ''name'')) (summary x)) (JStr zh_unnamed_item)),
           (ascii ''category'', js_or (get (data x) (ascii ''category'')) (JStr zh_other)),
           (ascii ''storage_zone'', js_or (get (data x) (ascii ''storage_zone'')) (JStr (ascii ''Other''))),
           (ascii ''quantity'',
              if isFiniteNumber (get (data x) (ascii ''quantity'')) then get (data x) (ascii ''quantity'')
              else JNum (Fin 1)),
           (ascii ''unit'', js_or (get (data x) (ascii ''unit'')) (JStr zh_ge)),
           (ascii ''expiry_date'', get (data x) (ascii ''expiry_date''))]\<rparr>"
    by (simp add: normalizeRouteResponse_def Let_def ascii_eq_iff)
  show ?thesis
    unfolding y using assms(1)
    by (simp add: normalizeRouteResponse_def Let_def ascii_eq_iff js_or_idem js_or_placeholder[OF p])
qed

lemma normalize_other_idem:
  assumes "route_type x \<noteq> JStr (ascii ''finance'')" "route_type x \<noteq> JStr (ascii ''todo'')"
    "route_type x \<noteq> JStr (ascii ''inventory'')" "normalizeRouteResponse x = Some y"
  shows "normalizeRouteResponse y = Some y"
  using assms by (simp add: normalizeRouteResponse_def Let_def)

lemma normalize_todo_idem:
  assumes r: "route_type x = JStr (ascii ''todo'')" and n: "normalizeRouteResponse x = Some y"
    and t: "truthy (get (data x) (ascii ''title''))"
  shows "normalizeRouteResponse y = Some y"
proof -
  let ?d = "data x"
  from r n obtain pv tt dt where
    pv: "ToNumber (get ?d (ascii ''priority'')) = Some pv" and
    tt: "ToString (js_or (get ?d (ascii ''title'')) (JStr [])) = Some tt" and
    dt: "ToString (js_or (get ?d (ascii ''description'')) (JStr [])) = Some dt"
    by (auto simp: normalizeRouteResponse_def Let_def ascii_eq_iff split: option.splits)
  define rc where "rc = inferTodoCategoryFromText (str_trim (tt @ 0x20 # dt))"
  define pr where "pr = (if isFiniteNumber (JNum pv) \<and> num_le (Fin 1) pv \<and> num_le pv (Fin 3)
                                then pv else Fin 2)"
  have prn: "isFiniteNumber (JNum pr) \<and> num_le (Fin 1) pr \<and> num_le pr (Fin 3)"
    by (simp add: pr_def)
  from r n pv tt dt have y: "y = x\<lparr>data := JObj
      [(ascii ''title'', js_or (js_or (get ?d (ascii ''title'')) (summary x)) (JStr zh_unnamed_task)),
       (ascii ''description'', get ?d (ascii ''description'')),
       (ascii ''type'', js_or (get ?d (ascii ''type'')) (JStr (ascii ''Todo''))),
       (ascii ''priority'', JNum pr),
       (ascii ''due_date'', get ?d (ascii ''due_date'')),
       (ascii ''remind_at'', get ?d (ascii ''remind_at'')),
       (ascii ''repeat_rule'', get ?d (ascii ''repeat_rule'')),
       (ascii ''repeat_interval'', get ?d (ascii ''repeat_interval'')),
       (ascii ''category'', if rc \<noteq> zh_uncategorized then JStr rc
                              else js_or (get ?d (ascii ''category'')) (JStr rc))]\<rparr>"
    by (auto simp: normalizeRouteResponse_def Let_def ascii_eq_iff rc_def pr_def)
  have ti: "js_or (js_or (get ?d (ascii ''title'')) (summary x)) (JStr zh_unnamed_task)
            = get ?d (ascii ''title'')"
    using t by (simp add: js_or_def)
  show ?thesis
    unfolding y using r prn tt dt
    by (simp add: normalizeRouteResponse_def Let_def ascii_eq_iff js_or_idem ti rc_def[symmetric])
qed

text \<open>
  Claim C6, as the code has it. A second pass of \<open>normalizeRouteResponse\<close> changes
  nothing on a finance, an inventory or any other result, and nothing on a todo result
  whose payload has a title. The todo branch infers the category from the title and
  description of the payload before the title is defaulted from the summary; when the
  payload has no title, the second pass sees the summary as title and may infer another
  category. The hypothesis that the first pass returns covers the TypeError of the
  todo branch.
\<close>

theorem normalizeRouteResponse_idempotent:
  assumes "normalizeRouteResponse x = Some y"
      and "route_type x = JStr (ascii ''todo'') \<longrightarrow> truthy (get (data x) (ascii ''title''))"
  shows "normalizeRouteResponse y = Some y"
  using assms normalize_finance_idem normalize_inventory_idem normalize_other_idem
    normalize_todo_idem by blast

text \<open>The theorem at a todo result whose payload has a title.\<close>

theorem normalizeRouteResponse_idempotent_witness:
  "normalizeRouteResponse todo_with_title \<noteq> None
   \<and> truthy (get (data todo_with_title) (ascii ''title''))
   \<and> normalizeRouteResponse (the (normalizeRouteResponse todo_with_title))
       = normalizeRouteResponse todo_with_title"
proof -
  have 1: "normalizeRouteResponse todo_with_title \<noteq> None" by code_simp
  have 2: "truthy (get (data todo_with_title) (ascii ''title''))" by code_simp
  from 1 obtain y where y: "normalizeRouteResponse todo_with_title = Some y" by blast
  show ?thesis
    using normalizeRouteResponse_idempotent[OF y] 1 2 y by simp
qed

text \<open>
  The claim as the specification states it fails at a todo result without title whose
  summary holds a keyword of the category U+5DE5 U+4F5C: the first pass leaves the
  category U+672A U+5206 U+7C7B, the second pass changes it.
\<close>

theorem normalizeRouteResponse_idempotent_counterexample:
  "Option.bind (normalizeRouteResponse todo_without_title) normalizeRouteResponse
   \<noteq> normalizeRouteResponse todo_without_title"
  by code_simp

section \<open>When every attempt fails\<close>

lemma routeContent_loop_failed:
  "failed_attempts gen content attempt count s = Some (messages, s') \<Longrightarrow>
   attempt + count = maxRetries + 2 \<Longrightarrow>
   routeContent_loop gen content maxRetries attempt lastError s
     = (failure_result (if messages = [] then lastError else Some (last messages)), s')"
proof (induction count arbitrary: attempt lastError s messages)
  case 0
  then show ?case by (simp add: routeContent_loop.simps)
next
  case (Suc count)
  from Suc.prems(1) obtain message s1 messages' where
    a: "route_attempt gen s attempt content = (Inl message, s1)" and
    f: "failed_attempts gen content (Suc attempt) count s1 = Some (messages', s')" and
    m: "messages = message # messages'"
    by (auto split: prod.splits sum.splits option.splits)
  from Suc.prems(2) have le: "attempt \<le> maxRetries + 1" and n: "Suc attempt + count = maxRetries + 2"
    by simp_all
  have "routeContent_loop gen content maxRetries attempt lastError s
        = routeContent_loop gen content maxRetries (attempt + 1) (Some message) s1"
    using le a by (subst routeContent_loop.simps) simp
  also have "\<dots> = (failure_result (if messages' = [] then Some message else Some (last messages')), s')"
    using Suc.IH[OF f n, of "Some message"] by simp
  finally show ?case using m by simp
qed

lemma failed_attempts_length:
  "failed_attempts gen content attempt count s = Some (messages, s') \<Longrightarrow> length messages = count"
  by (induction count arbitrary: attempt s messages)
     (auto split: prod.splits sum.splits option.splits)

lemma includes_append: "str_includes (ps @ k @ ss) k"
  by (auto simp: str_includes_iff)

lemma invalid_json_message_includes_JSON:
  "str_includes (ascii ''Invalid JSON response: '' @ resultText) (ascii ''JSON'')"
proof -
  have "ascii ''Invalid JSON response: '' @ resultText
        = ascii ''Invalid '' @ ascii ''JSON'' @ (ascii '' response: '' @ resultText)"
    by (simp add: ascii_def)
  then show ?thesis by (simp only: includes_append)
qed

lemma parse_reply_error:
  "parse_reply resultText cleanedText = Inl message \<Longrightarrow>
   message = ascii ''Invalid JSON response: '' @ resultText"
  by (auto simp: parse_reply_def split: option.splits if_splits)

lemma parse_reply_error_JSON:
  "parse_reply resultText cleanedText = Inl message \<Longrightarrow> str_includes message (ascii ''JSON'')"
  using parse_reply_error[of resultText cleanedText message] invalid_json_message_includes_JSON
  by simp

text \<open>
  Claim C7, as the code has it. When all \<open>maxRetries + 1\<close> attempts fail, the result is
  Unknown with confidence 0 and no payload, and its summary is chosen by the message of
  the last error alone: the format message when that message contains \<open>JSON\<close>, as the
  message of a reply that failed all three tiers does, and the connectivity message
  otherwise. The errors of the earlier attempts play no part.
\<close>

theorem routeContent_all_attempts_failed:
  assumes "failed_attempts gen content 1 (maxRetries + 1) s = Some (messages, s')"
  shows "routeContent gen s content maxRetries =
           (\<lparr>route_type = JStr (ascii ''unknown''),
             confidence = JNum (Fin 0),
             summary = JStr (if str_includes (last messages) (ascii ''JSON'')
                             then msg_format_error else msg_network_error),
             data = JNull\<rparr>, s')
         \<and> (\<forall>resultText cleanedText.
               parse_reply resultText cleanedText = Inl (last messages) \<longrightarrow>
               summary (fst (routeContent gen s content maxRetries)) = JStr msg_format_error)"
proof -
  from assms have "length messages = maxRetries + 1" by (rule failed_attempts_length)
  then have ne: "messages \<noteq> []" by auto
  have r: "routeContent gen s content maxRetries = (failure_result (Some (last messages)), s')"
    unfolding routeContent_def
    using routeContent_loop_failed[OF assms, of maxRetries None] ne by simp
  show ?thesis
    using r parse_reply_error_JSON[of _ _ "last messages"]
    by (auto simp: failure_result_def)
qed

text \<open>The theorem at an adapter whose replies are never parseable.\<close>

theorem routeContent_all_attempts_failed_witness:
  "failed_attempts (adapter_answering reply_garbage) text_hello 1 (2 + 1) 0
     = Some (replicate 3 (ascii ''Invalid JSON response: oops''), 3)
   \<and> routeContent (adapter_answering reply_garbage) 0 text_hello 2 =
           (\<lparr>route_type = JStr (ascii ''unknown''),
             confidence = JNum (Fin 0),
             summary = JStr msg_format_error,
             data = JNull\<rparr>, 3)"
proof -
  have f: "failed_attempts (adapter_answering reply_garbage) text_hello 1 (2 + 1) 0
             = Some (replicate 3 (ascii ''Invalid JSON response: oops''), 3)"
    by code_simp
  have i: "str_includes (last (replicate 3 (ascii ''Invalid JSON response: oops''))) (ascii ''JSON'')"
    by code_simp
  show ?thesis
    using routeContent_all_attempts_failed[OF f] f i by simp
qed

text \<open>
  The claim as the specification states it (a connectivity summary when transport
  failed) fails at an adapter whose first two calls fail in transport and whose third
  reply is not parseable: the summary is the format message.
\<close>

theorem routeContent_all_attempts_failed_counterexample:
  "failed_attempts adapter_flaky text_hello 1 3 0
     = Some ([message_network, message_network, ascii ''Invalid JSON response: oops''], 3)
   \<and> summary (fst (routeContent adapter_flaky 0 text_hello 2)) = JStr msg_format_error"
  by code_simp

section \<open>Transport failure on every attempt\<close>

lemma adapter_calls_failed_attempts:
  "adapter_calls gen content attempt count s = (map Failure messages, s') \<Longrightarrow>
   failed_attempts gen content attempt count s = Some (messages, s')"
proof (induction count arbitrary: attempt s messages)
  case 0
  then show ?case by simp
next
  case (Suc count)
  obtain reply s1 where g: "gen s (route_request attempt content) = (reply, s1)"
    by (cases "gen s (route_request attempt content)")
  obtain replies s2 where c: "adapter_calls gen content (Suc attempt) count s1 = (replies, s2)"
    by (cases "adapter_calls gen content (Suc attempt) count s1")
  from Suc.prems g c have e: "reply # replies = map Failure messages" and s2: "s2 = s'"
    by simp_all
  then obtain message messages' where
    m: "messages = message # messages'" "reply = Failure message" "replies = map Failure messages'"
    by (cases messages) auto
  from c m(3) s2 have "adapter_calls gen content (Suc attempt) count s1 = (map Failure messages', s')"
    by simp
  then have f: "failed_attempts gen content (Suc attempt) count s1 = Some (messages', s')"
    by (rule Suc.IH)
  from g m(2) have "route_attempt gen s attempt content = (Inl message, s1)"
    by (simp add: route_attempt_def)
  with f m(1) show ?case by simp
qed

text \<open>
  Claim C1, as the code has it. The heuristic is consulted only after an attempt whose
  reply was parsed. When each of the \<open>maxRetries + 1\<close> calls of the adapter fails in
  transport, with the messages \<open>messages\<close> in this order, \<open>routeContent\<close> returns the
  failure result for every text, whatever the heuristic would guess: Unknown with
  confidence 0 and no payload, and as summary the connectivity message unless the
  message of the last failure contains \<open>JSON\<close>, in which case it is the format message.
  On the text of scenario D the guess of the heuristic itself is inventory with
  confidence 0.4, the summary as name and the zone Fridge, but quantity 1 and the
  generic unit: the quantity pattern asks for an ASCII digit, and the text has none.
\<close>

theorem routeContent_transport_failure:
  assumes "adapter_calls gen content 1 (maxRetries + 1) s = (map Failure messages, s')"
  shows "routeContent gen s content maxRetries =
           (\<lparr>route_type = JStr (ascii ''unknown''),
             confidence = JNum (Fin 0),
             summary = JStr (if str_includes (last messages) (ascii ''JSON'')
                             then msg_format_error else msg_network_error),
             data = JNull\<rparr>, s')
         \<and> length messages = maxRetries + 1
         \<and> inferRouteFromText text_milk =
             Some \<lparr>route_type = JStr (ascii ''inventory''),
                   confidence = JNum (Fin (4 / 10)),
                   summary = JStr text_milk,
                   data = JObj [(ascii ''name'', JStr text_milk),
                                (ascii ''category'', JStr zh_other),
                                (ascii ''storage_zone'', JStr (ascii ''Fridge'')),
                                (ascii ''quantity'', JNum (Fin 1)),
                                (ascii ''unit'', JStr zh_ge)]\<rparr>"
proof -
  from assms have f: "failed_attempts gen content 1 (maxRetries + 1) s = Some (messages, s')"
    by (rule adapter_calls_failed_attempts)
  then have l: "length messages = maxRetries + 1" by (rule failed_attempts_length)
  then have ne: "messages \<noteq> []" by auto
  have "routeContent gen s content maxRetries = (failure_result (Some (last messages)), s')"
    unfolding routeContent_def
    using routeContent_loop_failed[OF f, of maxRetries None] ne by simp
  then have 1: "routeContent gen s content maxRetries =
           (\<lparr>route_type = JStr (ascii ''unknown''),
             confidence = JNum (Fin 0),
             summary = JStr (if str_includes (last messages) (ascii ''JSON'')
                             then msg_format_error else msg_network_error),
             data = JNull\<rparr>, s')"
    by (simp add: failure_result_def)
  have 2: "inferRouteFromText text_milk =
             Some \<lparr>route_type = JStr (ascii ''inventory''),
                   confidence = JNum (Fin (4 / 10)),
                   summary = JStr text_milk,
                   data = JObj [(ascii ''name'', JStr text_milk),
                                (ascii ''category'', JStr zh_other),
                                (ascii ''storage_zone'', JStr (ascii ''Fridge'')),
                                (ascii ''quantity'', JNum (Fin 1)),
                                (ascii ''unit'', JStr zh_ge)]\<rparr>"
    by code_simp
  from 1 l 2 show ?thesis by simp
qed

text \<open>
  The theorem on the text of scenario D, at an adapter whose three calls fail with a
  message that contains \<open>JSON\<close>: the summary is the format message.
\<close>

theorem routeContent_transport_failure_witness:
  "adapter_calls adapter_html_error text_milk 1 (2 + 1) 0
     = (map Failure [message_html, message_html, message_html], 3)
   \<and> str_includes (last [message_html, message_html, message_html]) (ascii ''JSON'')
   \<and> routeContent adapter_html_error 0 text_milk 2 =
       (\<lparr>route_type = JStr (ascii ''unknown''),
         confidence = JNum (Fin 0),
         summary = JStr msg_format_error,
         data = JNull\<rparr>, 3)"
proof -
  have c: "adapter_calls adapter_html_error text_milk 1 (2 + 1) 0
             = (map Failure [message_html, message_html, message_html], 3)"
    by code_simp
  have i: "str_includes (last [message_html, message_html, message_html]) (ascii ''JSON'')"
    by code_simp
  show ?thesis
    using routeContent_transport_failure[OF c] c i by simp
qed

text \<open>
  The claim as the specification states it fails at that text and the adapter that
  always fails with a network message: the heuristic has a guess for the text, and the
  result is the failure result all the same, with the connectivity message.
\<close>

theorem routeContent_transport_failure_counterexample:
  "inferRouteFromText text_milk \<noteq> None
   \<and> routeContent adapter_down 0 text_milk 2 =
       (\<lparr>route_type = JStr (ascii ''unknown''),
         confidence = JNum (Fin 0),
         summary = JStr msg_network_error,
         data = JNull\<rparr>, 3)"
  by code_simp

section \<open>Blank input\<close>

lemma dropWhile_all: "list_all P xs \<Longrightarrow> dropWhile P xs = []"
  by (induction xs) auto

lemma clean_text_blank: "list_all isWhiteSpace content \<Longrightarrow> clean_text content = []"
proof (cases content)
  case Nil
  then show ?thesis by (simp add: clean_text_def str_trim_def)
next
  case (Cons c cs)
  assume "list_all isWhiteSpace content"
  with Cons have c: "isWhiteSpace c" and cs: "dropWhile isWhiteSpace cs = []"
    by (simp_all add: dropWhile_all)
  have "collapse_ws (c # cs) = 0x20 # collapse_ws (dropWhile isWhiteSpace cs)"
    using c by simp
  also have "\<dots> = [0x20]"
    by (simp only: cs collapse_ws.simps)
  finally have "collapse_ws content = [0x20]"
    using Cons by simp
  then show ?thesis
    by (simp add: clean_text_def str_trim_def space_isWhiteSpace)
qed

lemma inferRouteFromText_blank: "clean_text content = [] \<Longrightarrow> inferRouteFromText content = None"
  by (simp add: inferRouteFromText_def)

lemma routeContent_loop_skip:
  "failed_attempts gen content attempt k s = Some (messages, sk) \<Longrightarrow>
   attempt + k \<le> maxRetries + 2 \<Longrightarrow>
   routeContent_loop gen content maxRetries attempt lastError s
     = routeContent_loop gen content maxRetries (attempt + k)
         (if messages = [] then lastError else Some (last messages)) sk"
proof (induction k arbitrary: attempt lastError s messages)
  case 0
  then show ?case by simp
next
  case (Suc k)
  from Suc.prems(1) obtain message s1 messages' where
    a: "route_attempt gen s attempt content = (Inl message, s1)" and
    f: "failed_attempts gen content (Suc attempt) k s1 = Some (messages', sk)" and
    m: "messages = message # messages'"
    by (auto split: prod.splits sum.splits option.splits)
  from Suc.prems(2) have le: "attempt \<le> maxRetries + 1" and n: "Suc attempt + k \<le> maxRetries + 2"
    by simp_all
  have "routeContent_loop gen content maxRetries attempt lastError s
        = routeContent_loop gen content maxRetries (attempt + 1) (Some message) s1"
    using le a by (subst routeContent_loop.simps) simp
  also have "\<dots> = routeContent_loop gen content maxRetries (Suc attempt + k)
                     (if messages' = [] then Some message else Some (last messages')) sk"
    using Suc.IH[OF f n, of "Some message"] by simp
  finally show ?case using m by simp
qed

text \<open>
  Claim C5, as the code has it. \<open>routeContent\<close> has no check of its input: for an empty
  or white-space-only text the requests go to the adapter as for any other text. The
  heuristic has no guess for such a text, so nothing replaces what a reply gives: when
  the first \<open>k\<close> attempts fail, for any \<open>k\<close> up to \<open>maxRetries\<close>, and the reply of the next
  one parses, validates and normalizes, the result is that normalized reply, with the
  route and the confidence it carries, and the adapter has been called \<open>k + 1\<close> times;
  when all \<open>maxRetries + 1\<close> attempts fail, the result is the failure result, chosen by
  the message of the last error. Every run is one of the two.
\<close>

theorem routeContent_blank_input:
  assumes "list_all isWhiteSpace content"
  shows "inferRouteFromText content = None
         \<and> (\<forall>k messages sk text s' parsed valid normalized.
               k \<le> maxRetries
               \<and> failed_attempts gen content 1 k s = Some (messages, sk)
               \<and> gen sk (route_request (Suc k) content) = (Reply text, s')
               \<and> parse_reply (str_trim text) (strip_fences (str_trim text)) = Inr parsed
               \<and> validate_response parsed = Inr valid
               \<and> normalizeRouteResponse valid = Some normalized
               \<longrightarrow> routeContent gen s content maxRetries = (normalized, s'))
         \<and> (\<forall>messages s'.
               failed_attempts gen content 1 (maxRetries + 1) s = Some (messages, s')
               \<longrightarrow> routeContent gen s content maxRetries
                     = (failure_result (Some (last messages)), s'))"
proof (intro conjI allI impI)
  show "inferRouteFromText content = None"
    using assms by (simp add: clean_text_blank inferRouteFromText_blank)
next
  fix k messages sk and reply :: jsstring and s' parsed valid normalized
  assume a: "k \<le> maxRetries
             \<and> failed_attempts gen content 1 k s = Some (messages, sk)
             \<and> gen sk (route_request (Suc k) content) = (Reply reply, s')
             \<and> parse_reply (str_trim reply) (strip_fences (str_trim reply)) = Inr parsed
             \<and> validate_response parsed = Inr valid
             \<and> normalizeRouteResponse valid = Some normalized"
  have h: "inferRouteFromText content = None"
    using assms by (simp add: clean_text_blank inferRouteFromText_blank)
  have "finish_route content reply = Inr normalized"
    using a h by (simp add: finish_route_def Let_def)
  then have r: "route_attempt gen sk (Suc k) content = (Inr normalized, s')"
    using a by (simp add: route_attempt_def)
  from a have f: "failed_attempts gen content 1 k s = Some (messages, sk)"
    and le: "1 + k \<le> maxRetries + 2"
    by simp_all
  have "routeContent gen s content maxRetries
        = routeContent_loop gen content maxRetries (1 + k)
            (if messages = [] then None else Some (last messages)) sk"
    unfolding routeContent_def by (rule routeContent_loop_skip[OF f le])
  also have "\<dots> = (normalized, s')"
    using a r by (subst routeContent_loop.simps) simp
  finally show "routeContent gen s content maxRetries = (normalized, s')" .
next
  fix messages s'
  assume f: "failed_attempts gen content 1 (maxRetries + 1) s = Some (messages, s')"
  then have "length messages = maxRetries + 1" by (rule failed_attempts_length)
  then have ne: "messages \<noteq> []" by auto
  show "routeContent gen s content maxRetries = (failure_result (Some (last messages)), s')"
    unfolding routeContent_def
    using routeContent_loop_failed[OF f, of maxRetries None] ne by simp
qed

text \<open>
  The theorem at the text of three spaces: with an adapter whose first call fails and
  whose second reply is bare fields, from which the third tier makes a todo result
  after two calls; and with the adapter that always fails, where the three attempts
  give the failure result.
\<close>

theorem routeContent_blank_input_witness:
  "list_all isWhiteSpace (ascii ''   '')
   \<and> failed_attempts adapter_recovering (ascii ''   '') 1 1 0 = Some ([message_network], 1)
   \<and> adapter_recovering 1 (route_request 2 (ascii ''   '')) = (Reply reply_fields_only, 2)
   \<and> route_type (fst (routeContent adapter_recovering 0 (ascii ''   '') 2)) = JStr (ascii ''todo'')
   \<and> snd (routeContent adapter_recovering 0 (ascii ''   '') 2) = 2
   \<and> failed_attempts adapter_down (ascii ''   '') 1 (2 + 1) 0
       = Some ([message_network, message_network, message_network], 3)
   \<and> routeContent adapter_down 0 (ascii ''   '') 2 = (failure_result (Some message_network), 3)"
proof -
  have 1: "list_all isWhiteSpace (ascii ''   '')" by code_simp
  have 2: "failed_attempts adapter_recovering (ascii ''   '') 1 1 0 = Some ([message_network], 1)"
    by code_simp
  have 3: "adapter_recovering 1 (route_request 2 (ascii ''   '')) = (Reply reply_fields_only, 2)"
    by (simp add: adapter_recovering_def)
  let ?parsed = "projr (parse_reply (str_trim reply_fields_only)
                          (strip_fences (str_trim reply_fields_only)))"
  let ?valid = "projr (validate_response ?parsed)"
  let ?normalized = "the (normalizeRouteResponse ?valid)"
  have "\<not> isl (parse_reply (str_trim reply_fields_only) (strip_fences (str_trim reply_fields_only)))"
    by code_simp
  then have 4: "parse_reply (str_trim reply_fields_only) (strip_fences (str_trim reply_fields_only))
                = Inr ?parsed"
    by simp
  have "\<not> isl (validate_response ?parsed)"
    by code_simp
  then have 5: "validate_response ?parsed = Inr ?valid"
    by simp
  have "normalizeRouteResponse ?valid \<noteq> None"
    by code_simp
  then have 6: "normalizeRouteResponse ?valid = Some ?normalized"
    by simp
  have 7: "route_type ?normalized = JStr (ascii ''todo'')"
    by code_simp
  have 8: "failed_attempts adapter_down (ascii ''   '') 1 (2 + 1) 0
             = Some ([message_network, message_network, message_network], 3)"
    by code_simp
  have le: "(1::nat) \<le> 2" by simp
  have 9: "adapter_recovering 1 (route_request (Suc 1) (ascii ''   ''))
             = (Reply reply_fields_only, 2)"
    by (simp add: adapter_recovering_def)
  note t = routeContent_blank_input[OF 1]
  have a: "routeContent adapter_recovering 0 (ascii ''   '') 2 = (?normalized, 2)"
    by (rule t[where gen = adapter_recovering and s = 0 and maxRetries = 2,
            THEN conjunct2, THEN conjunct1, rule_format,
            of 1 "[message_network]" 1 reply_fields_only 2 ?parsed ?valid ?normalized])
       (intro conjI le 2 9 4 5 6)
  have b: "routeContent adapter_down 0 (ascii ''   '') 2
           = (failure_result (Some (last [message_network, message_network, message_network])), 3)"
    using t[where gen = adapter_down and s = 0 and maxRetries = 2,
            THEN conjunct2, THEN conjunct2, rule_format, OF 8] .
  from 1 2 3 a b 7 8 show ?thesis by simp
qed

text \<open>
  The claim as the specification states it fails at the empty text: the adapter is
  called once, and its reply makes the result a todo record, not Unknown.
\<close>

theorem routeContent_blank_input_counterexample:
  "route_type (fst (routeContent (adapter_answering reply_fields_only) 0 [] 2))
     = JStr (ascii ''todo'')
   \<and> snd (routeContent (adapter_answering reply_fields_only) 0 [] 2) = 1"
  by code_simp

section \<open>The batch classifier falls back on the classifier\<close>

lemma routeContentBatch_loop_empty:
  "empty_batch_attempts gen content attempt count s = Some s' \<Longrightarrow>
   attempt + count = maxRetries + 2 \<Longrightarrow>
   routeContentBatch_loop gen content maxRetries attempt s
     = ([fst (routeContent gen s' content 2)], snd (routeContent gen s' content 2))"
proof (induction count arbitrary: attempt s)
  case 0
  then show ?case
    by (subst routeContentBatch_loop.simps) (simp add: case_prod_beta)
next
  case (Suc count)
  from Suc.prems(1) obtain s1 where
    a: "batch_attempt gen s attempt content = (None, s1)" and
    e: "empty_batch_attempts gen content (Suc attempt) count s1 = Some s'"
    by (auto split: prod.splits option.splits)
  from Suc.prems(2) have le: "attempt \<le> maxRetries + 1" and n: "Suc attempt + count = maxRetries + 2"
    by simp_all
  have "routeContentBatch_loop gen content maxRetries attempt s
        = routeContentBatch_loop gen content maxRetries (attempt + 1) s1"
    using le a by (subst routeContentBatch_loop.simps) simp
  with Suc.IH[OF e n] show ?case by simp
qed

lemma batch_attempt_nonempty:
  "batch_attempt gen s attempt content = (Some items, s') \<Longrightarrow> items \<noteq> []"
  by (auto simp: batch_attempt_def split: prod.splits adapter_reply.splits option.splits list.splits)

lemma routeContentBatch_loop_fallback:
  "\<not> attempt \<le> maxRetries + 1 \<Longrightarrow>
   routeContentBatch_loop gen content maxRetries attempt s
     = ([fst (routeContent gen s content 2)], snd (routeContent gen s content 2))"
  by (subst routeContentBatch_loop.simps) (simp add: case_prod_beta)

lemma routeContentBatch_loop_step:
  "attempt \<le> maxRetries + 1 \<Longrightarrow>
   routeContentBatch_loop gen content maxRetries attempt s
     = (case batch_attempt gen s attempt content of
          (Some normalizedItems, s') \<Rightarrow> (normalizedItems, s')
        | (None, s') \<Rightarrow> routeContentBatch_loop gen content maxRetries (attempt + 1) s')"
  by (subst routeContentBatch_loop.simps) simp

lemma routeContentBatch_loop_nonempty_aux:
  "maxRetries + 2 - attempt = k \<Longrightarrow>
   fst (routeContentBatch_loop gen content maxRetries attempt s) \<noteq> []"
proof (induction k arbitrary: attempt s)
  case 0
  then have "\<not> attempt \<le> maxRetries + 1" by simp
  then show ?case by (simp add: routeContentBatch_loop_fallback)
next
  case (Suc k)
  then have le: "attempt \<le> maxRetries + 1" and m: "maxRetries + 2 - (attempt + 1) = k"
    by simp_all
  obtain r s1 where a: "batch_attempt gen s attempt content = (r, s1)"
    by (cases "batch_attempt gen s attempt content")
  show ?case
  proof (cases r)
    case None
    then have "routeContentBatch_loop gen content maxRetries attempt s
               = routeContentBatch_loop gen content maxRetries (attempt + 1) s1"
      using a by (simp add: routeContentBatch_loop_step[OF le])
    with Suc.IH[OF m, of s1] show ?thesis by simp
  next
    case (Some items)
    with a have "items \<noteq> []" by (simp add: batch_attempt_nonempty)
    moreover have "routeContentBatch_loop gen content maxRetries attempt s = (items, s1)"
      using a Some by (simp add: routeContentBatch_loop_step[OF le])
    ultimately show ?thesis by simp
  qed
qed

lemma routeContentBatch_loop_nonempty:
  "fst (routeContentBatch_loop gen content maxRetries attempt s) \<noteq> []"
  by (rule routeContentBatch_loop_nonempty_aux) (rule refl)

text \<open>
  Claim C8. \<open>routeContentBatch\<close> never returns the empty list, and when each of its
  \<open>maxRetries + 1\<close> attempts yields nothing, it returns the one-element list of the
  result of \<open>routeContent\<close> on the same text, with the default retry budget 2, run on
  the adapter as the batch attempts left it.
\<close>

theorem routeContentBatch_fallback:
  "fst (routeContentBatch gen s content maxRetries) \<noteq> []
   \<and> (empty_batch_attempts gen content 1 (maxRetries + 1) s = Some s' \<longrightarrow>
        routeContentBatch gen s content maxRetries
          = ([fst (routeContent gen s' content 2)], snd (routeContent gen s' content 2)))"
  unfolding routeContentBatch_def
  using routeContentBatch_loop_nonempty[of gen content maxRetries 1 s]
        routeContentBatch_loop_empty[of gen content 1 "maxRetries + 1" s s' maxRetries]
  by simp

text \<open>The theorem at an adapter whose reply of bare fields is no JSON text: both batch
  attempts yield nothing, and the third tier of \<open>routeContent\<close> makes a todo result.\<close>

theorem routeContentBatch_fallback_witness:
  "empty_batch_attempts (adapter_answering reply_fields_only) text_hello 1 (1 + 1) 0 = Some 2
   \<and> routeContentBatch (adapter_answering reply_fields_only) 0 text_hello 1
       = ([fst (routeContent (adapter_answering reply_fields_only) 2 text_hello 2)], 3)
   \<and> route_type (fst (routeContent (adapter_answering reply_fields_only) 2 text_hello 2))
       = JStr (ascii ''todo'')"
proof -
  have e: "empty_batch_attempts (adapter_answering reply_fields_only) text_hello 1 (1 + 1) 0
           = Some 2"
    by code_simp
  have r: "snd (routeContent (adapter_answering reply_fields_only) 2 text_hello 2) = 3
           \<and> route_type (fst (routeContent (adapter_answering reply_fields_only) 2 text_hello 2))
               = JStr (ascii ''todo'')"
    by code_simp
  from routeContentBatch_fallback[of "adapter_answering reply_fields_only" 0 text_hello 1 2] e r
  show ?thesis by simp
qed

section \<open>The batch classifier parses strictly\<close>

text \<open>
  Claim C10. An attempt of \<open>routeContentBatch\<close> hands the text of the reply, fences
  stripped, to \<open>JSON.parse\<close> and to nothing else: when that text is no JSON text the
  attempt yields nothing, whatever the tiers of \<open>routeContent\<close> make of the same text.
\<close>

theorem routeContentBatch_strict_parse:
  assumes "JSON_parse (strip_fences (str_trim text)) = None"
  shows "batch_items text = None
         \<and> (\<forall>gen s s' attempt content.
               gen s (batch_request attempt content) = (Reply text, s') \<longrightarrow>
               batch_attempt gen s attempt content = (None, s'))"
  using assms by (simp add: batch_items_def batch_attempt_def)

text \<open>The theorem at a reply of bare fields, which is no JSON text and from which the
  third tier of \<open>routeContent\<close> recovers a result.\<close>

theorem routeContentBatch_strict_parse_witness:
  "JSON_parse (strip_fences (str_trim reply_fields_only)) = None
   \<and> batch_items reply_fields_only = None
   \<and> batch_attempt (adapter_answering reply_fields_only) 0 1 text_hello = (None, 1)
   \<and> \<not> isl (parse_reply (str_trim reply_fields_only) (strip_fences (str_trim reply_fields_only)))"
proof -
  have j: "JSON_parse (strip_fences (str_trim reply_fields_only)) = None"
    by code_simp
  have g: "adapter_answering reply_fields_only 0 (batch_request 1 text_hello)
           = (Reply reply_fields_only, 1)"
    by (simp add: adapter_answering_def)
  have p: "\<not> isl (parse_reply (str_trim reply_fields_only)
                     (strip_fences (str_trim reply_fields_only)))"
    by code_simp
  note t = routeContentBatch_strict_parse[OF j]
  from t[THEN conjunct1]
       t[THEN conjunct2, rule_format, where gen = "adapter_answering reply_fields_only"
            and s = 0 and attempt = 1 and content = text_hello, OF g] j p
  show ?thesis
    by simp
qed

section \<open>The truncated reply of scenario B\<close>

text \<open>
  Claim C9, as the code has it. The truncated reply has no closing brace, so the first
  tier throws before \<open>JSON.parse\<close> and the pattern of the second tier does not match.
  The third tier recovers the route finance, the confidence 0.8, the summary and the
  amount 25. Its pattern for a string property ends with the group and asks for no
  closing quote, so the category is the text up to the cut, U+9910, and the normalizer
  keeps it; the default U+5176 U+4ED6 is not used.
\<close>

theorem truncated_reply_salvaged:
  "strip_fences (str_trim reply_truncated) = reply_truncated
   \<and> \<not> str_includes reply_truncated [0x7D]
   \<and> match_braces reply_truncated = None
   \<and> extractRouteFromText reply_truncated =
        Some \<lparr>route_type = JStr (ascii ''finance''),
              confidence = JNum (Fin (8 / 10)),
              summary = JStr [0x5496, 0x5561, 0x6D88, 0x8D39],
              data = JObj [(ascii ''amount'', JNum (Fin 25)),
                           (ascii ''category'', JStr [0x9910]),
                           (ascii ''description'', JStr [0x5496, 0x5561, 0x6D88, 0x8D39])]\<rparr>
   \<and> routeContent (adapter_answering reply_truncated) 0 text_coffee 2 =
        (\<lparr>route_type = JStr (ascii ''finance''),
          confidence = JNum (Fin (8 / 10)),
          summary = JStr [0x5496, 0x5561, 0x6D88, 0x8D39],
          data = JObj [(ascii ''amount'', JNum (Fin 25)),
                       (ascii ''category'', JStr [0x9910]),
                       (ascii ''description'', JStr [0x5496, 0x5561, 0x6D88, 0x8D39]),
                       (ascii ''emotion_tag'', JUndefined),
                       (ascii ''is_essential'', JUndefined),
                       (ascii ''record_date'', JUndefined)]\<rparr>, 1)"
  by code_simp

text \<open>The claim as the specification states it fails: the category of the record that
  \<open>routeContent\<close> returns is not the default of the normalizer.\<close>

theorem truncated_reply_category_counterexample:
  "get (data (fst (routeContent (adapter_answering reply_truncated) 0 text_coffee 2)))
     (ascii ''category'') \<noteq> JStr zh_other"
  by code_simp

section \<open>The JSON parser\<close>

lemma cons_char_Some:
  "cons_char c x = Some (str, rest) \<Longrightarrow> \<exists>str'. x = Some (str', rest)"
  by (cases x) (auto simp: cons_char_def)

lemma json_chars_shorter: "json_chars s = Some (str, rest) \<Longrightarrow> length rest < length s"
proof (induction s arbitrary: str rule: json_chars.induct)
  case 1
  then show ?case by simp
next
  case (2 c cs)
  show ?case
  proof (cases "c = 0x22")
    case True
    with 2(4) show ?thesis by simp
  next
    case q: False
    show ?thesis
    proof (cases "c = 0x5C")
      case False
      with q 2(4) obtain str' where "json_chars cs = Some (str', rest)"
        by (auto split: if_splits dest: cons_char_Some)
      with 2(3)[OF q False] q False 2(4) show ?thesis
        by (auto split: if_splits)
    next
      case True
      show ?thesis
      proof (cases cs)
        case Nil
        with q True 2(4) show ?thesis by simp
      next
        case (Cons e r)
        show ?thesis
        proof (cases "e = 0x75")
          case u: True
          with q True Cons 2(4) obtain str' where
            h: "4 \<le> length r" "list_all isHexDigit (take 4 r)" and
            j: "json_chars (drop 4 r) = Some (str', rest)"
            by (auto split: if_splits dest: cons_char_Some)
          from 2(1)[OF q True Cons u _ j] h have "length rest < length (drop 4 r)" by simp
          with Cons show ?thesis by simp
        next
          case nu: False
          with q True Cons 2(4) obtain ch str' where
            e: "unescape e = Some ch" and j: "json_chars r = Some (str', rest)"
            by (auto split: option.splits dest: cons_char_Some)
          from 2(2)[OF q True Cons nu e j] Cons show ?thesis by simp
        qed
      qed
    qed
  qed
qed

lemma dropWhile_shorter: "takeWhile P xs \<noteq> [] \<Longrightarrow> length (dropWhile P xs) < length xs"
  by (cases xs) (auto simp: length_dropWhile_le less_Suc_eq_le split: if_splits)

lemma sign_rest_length:
  "length (snd (case s of [] \<Rightarrow> (False, s)
                | c # r \<Rightarrow> if c = (0x2D :: jschar) then (True, r) else (False, s))) \<le> length s"
  by (cases s) auto

lemma fraction_rest_length:
  "length (snd (case r1 of [] \<Rightarrow> ([], r1)
                | c # r \<Rightarrow> if c = (0x2E :: jschar)
                           then (takeWhile isDigit r, dropWhile isDigit r) else ([], r1)))
   \<le> length r1"
  by (cases r1) (auto simp: length_dropWhile_le le_SucI)

lemma exponent_rest_length:
  "length (dropWhile isDigit
             (case tl r2 of [] \<Rightarrow> []
              | c # r \<Rightarrow> if c = (0x2B :: jschar) \<or> c = 0x2D then r else c # r))
   \<le> length r2"
proof -
  have "length (case tl r2 of [] \<Rightarrow> []
              | c # r \<Rightarrow> if c = (0x2B :: jschar) \<or> c = 0x2D then r else c # r) \<le> length r2"
    by (cases r2; cases "tl r2") auto
  then show ?thesis
    using length_dropWhile_le le_trans by blast
qed

lemma json_number_shorter:
  assumes "json_number s = Some (v, rest)"
  shows "length rest < length s"
proof -
  let ?s1 = "snd (case s of [] \<Rightarrow> (False, s)
                  | c # r \<Rightarrow> if c = (0x2D :: jschar) then (True, r) else (False, s))"
  let ?r1 = "dropWhile isDigit ?s1"
  let ?r2 = "snd (case ?r1 of [] \<Rightarrow> ([], ?r1)
                | c # r \<Rightarrow> if c = (0x2E :: jschar)
                           then (takeWhile isDigit r, dropWhile isDigit r) else ([], ?r1))"
  let ?r3 = "case tl ?r2 of [] \<Rightarrow> []
              | c # r \<Rightarrow> if c = (0x2B :: jschar) \<or> c = 0x2D then r else c # r"
  from assms have ip: "takeWhile isDigit ?s1 \<noteq> []"
    and rest: "rest = dropWhile isDigit ?r3 \<or> rest = ?r2"
    by (auto simp: json_number_def Let_def case_prod_beta split: if_splits)
  have "length rest \<le> length ?r2"
    using rest exponent_rest_length[of ?r2] by auto
  also have "\<dots> \<le> length ?r1" by (rule fraction_rest_length)
  also have "\<dots> < length ?s1" using ip by (rule dropWhile_shorter)
  also have "\<dots> \<le> length s" by (rule sign_rest_length)
  finally show ?thesis .
qed

lemma double_of_rat_not_NaN: "double_of_rat r \<noteq> NaN"
  by (simp add: double_of_rat_def)

lemma num_neg_not_NaN: "x \<noteq> NaN \<Longrightarrow> num_neg x \<noteq> NaN"
  by (cases x) auto

lemma json_number_not_NaN: "json_number s = Some (v, rest) \<Longrightarrow> v \<noteq> NaN"
  by (auto simp: json_number_def Let_def case_prod_beta double_of_rat_not_NaN num_neg_not_NaN
           split: if_splits)


lemma skip_space_Cons: "skip_space s = c # r \<Longrightarrow> length r < length s"
proof -
  assume "skip_space s = c # r"
  then have "Suc (length r) = length (skip_space s)" by simp
  also have "\<dots> \<le> length s" by (simp add: skip_space_def length_dropWhile_le)
  finally show ?thesis by simp
qed

lemma skip_space_length: "length (skip_space s) \<le> length s"
  by (simp add: skip_space_def length_dropWhile_le)

lemma parse_value_Suc_shorter:
  assumes m: "\<And>t kvs r. parse_members n t = Parsed kvs r \<Longrightarrow> length r < length t"
      and e: "\<And>t vs r. parse_elements n t = Parsed vs r \<Longrightarrow> length r < length t"
      and p: "parse_value (Suc n) s = Parsed v r"
  shows "length r < length s"
proof (cases s)
  case Nil
  with p show ?thesis by simp
next
  case (Cons c r0)
  consider (obj) "c = 0x7B" | (arr) "c \<noteq> 0x7B" "c = 0x5B" | (str) "c \<noteq> 0x7B" "c \<noteq> 0x5B" "c = 0x22"
    | (other) "c \<noteq> 0x7B" "c \<noteq> 0x5B" "c \<noteq> 0x22"
    by blast
  then show ?thesis
  proof cases
    case obj
    with p Cons obtain c' r' where k: "skip_space r0 = c' # r'"
      by (auto split: list.splits)
    show ?thesis
    proof (cases "c' = 0x7D")
      case True
      with p Cons obj k have "r = r'" by simp
      with skip_space_Cons[OF k] Cons show ?thesis by simp
    next
      case False
      with p Cons obj k obtain members where "parse_members n (c' # r') = Parsed members r"
        by (auto split: parse.splits)
      from m[OF this] k skip_space_length[of r0] Cons show ?thesis
        by (metis le_imp_less_Suc length_Cons less_trans)
    qed
  next
    case arr
    with p Cons obtain c' r' where k: "skip_space r0 = c' # r'"
      by (auto split: list.splits)
    show ?thesis
    proof (cases "c' = 0x5D")
      case True
      with p Cons arr k have "r = r'" by simp
      with skip_space_Cons[OF k] Cons show ?thesis by simp
    next
      case False
      with p Cons arr k obtain elements where "parse_elements n (c' # r') = Parsed elements r"
        by (auto split: parse.splits)
      from e[OF this] k skip_space_length[of r0] Cons show ?thesis
        by (metis le_imp_less_Suc length_Cons less_trans)
    qed
  next
    case str
    with p Cons obtain x where "json_chars r0 = Some (x, r)"
      by (auto split: option.splits)
    from json_chars_shorter[OF this] Cons show ?thesis by simp
  next
    case other
    have d: "length (drop k s) < length s" if "0 < k" for k
      using Cons that by simp
    from p Cons other show ?thesis
      using d[of 4] d[of 5] json_number_shorter[of s _ r]
      by (auto split: if_splits option.splits simp del: drop_Suc_Cons)
  qed
qed


lemma parse_elements_Suc_cases:
  assumes "parse_elements (Suc n) s = Parsed vs r"
  obtains v r1 r' where "parse_value n s = Parsed v r1" "skip_space r1 = 0x5D # r'" "r = r'"
                        "vs = [v]"
  | v r1 r' vs' where "parse_value n s = Parsed v r1" "skip_space r1 = 0x2C # r'"
                      "parse_elements n (skip_space r') = Parsed vs' r" "vs = v # vs'"
  using assms
  by (auto split: parse.splits list.splits if_splits)

lemma parse_members_Suc_cases:
  assumes "parse_members (Suc n) s = Parsed kvs r"
  obtains r0 k r1 r2 v r3 where "s = 0x22 # r0" "json_chars r0 = Some (k, r1)"
      "skip_space r1 = 0x3A # r2" "parse_value n (skip_space r2) = Parsed v r3"
      "skip_space r3 = 0x7D # r" "kvs = [(k, v)]"
  | r0 k r1 r2 v r3 r4 kvs' where "s = 0x22 # r0" "json_chars r0 = Some (k, r1)"
      "skip_space r1 = 0x3A # r2" "parse_value n (skip_space r2) = Parsed v r3"
      "skip_space r3 = 0x2C # r4" "parse_members n (skip_space r4) = Parsed kvs' r"
      "kvs = (k, v) # kvs'"
  using assms
  by (auto split: parse.splits list.splits if_splits option.splits prod.splits)

lemma parse_shorter:
  "(parse_value n s = Parsed v r \<longrightarrow> length r < length s)
   \<and> (parse_elements n s = Parsed vs r \<longrightarrow> length r < length s)
   \<and> (parse_members n s = Parsed kvs r \<longrightarrow> length r < length s)"
proof (induction n arbitrary: s v vs kvs r)
  case 0
  show ?case by simp
next
  case (Suc n)
  have val: "length r < length s" if "parse_value n s = Parsed v r" for s v r
    using Suc that by blast
  have elems: "length r < length s" if "parse_elements n s = Parsed vs r" for s vs r
    using Suc that by blast
  have membs: "length r < length s" if "parse_members n s = Parsed kvs r" for s kvs r
    using Suc that by blast
  have 1: "length r < length s" if "parse_value (Suc n) s = Parsed v r"
    using parse_value_Suc_shorter[OF membs elems that] .
  have 2: "length r < length s" if p: "parse_elements (Suc n) s = Parsed vs r"
  proof (rule parse_elements_Suc_cases[OF p])
    fix v r1 r'
    assume "parse_value n s = Parsed v r1" "skip_space r1 = 0x5D # r'" "r = r'"
    with val skip_space_Cons show ?thesis
      by (metis less_trans)
  next
    fix v r1 r' vs'
    assume a: "parse_value n s = Parsed v r1" "skip_space r1 = 0x2C # r'"
      "parse_elements n (skip_space r') = Parsed vs' r"
    have "length r < length (skip_space r')" using a(3) by (rule elems)
    also have "\<dots> \<le> length r'" by (rule skip_space_length)
    also have "\<dots> < length r1" using a(2) by (rule skip_space_Cons)
    also have "\<dots> < length s" using a(1) by (rule val)
    finally show ?thesis .
  qed
  have 3: "length r < length s" if p: "parse_members (Suc n) s = Parsed kvs r"
  proof (rule parse_members_Suc_cases[OF p])
    fix r0 k r1 r2 v r3
    assume a: "s = 0x22 # r0" "json_chars r0 = Some (k, r1)" "skip_space r1 = 0x3A # r2"
      "parse_value n (skip_space r2) = Parsed v r3" "skip_space r3 = 0x7D # r"
    have "length r < length r3" using a(5) by (rule skip_space_Cons)
    also have "\<dots> < length (skip_space r2)" using a(4) by (rule val)
    also have "\<dots> \<le> length r2" by (rule skip_space_length)
    also have "\<dots> < length r1" using a(3) by (rule skip_space_Cons)
    also have "\<dots> < length r0" using a(2) by (rule json_chars_shorter)
    also have "\<dots> < length s" using a(1) by simp
    finally show ?thesis .
  next
    fix r0 k r1 r2 v r3 r4 kvs'
    assume a: "s = 0x22 # r0" "json_chars r0 = Some (k, r1)" "skip_space r1 = 0x3A # r2"
      "parse_value n (skip_space r2) = Parsed v r3" "skip_space r3 = 0x2C # r4"
      "parse_members n (skip_space r4) = Parsed kvs' r"
    have "length r < length (skip_space r4)" using a(6) by (rule membs)
    also have "\<dots> \<le> length r4" by (rule skip_space_length)
    also have "\<dots> < length r3" using a(5) by (rule skip_space_Cons)
    also have "\<dots> < length (skip_space r2)" using a(4) by (rule val)
    also have "\<dots> \<le> length r2" by (rule skip_space_length)
    also have "\<dots> < length r1" using a(3) by (rule skip_space_Cons)
    also have "\<dots> < length r0" using a(2) by (rule json_chars_shorter)
    also have "\<dots> < length s" using a(1) by simp
    finally show ?thesis .
  qed
  from 1 2 3 show ?case by blast
qed


lemma parse_value_Exhausted:
  assumes "parse_value (Suc n) s = Exhausted"
  obtains r0 t where "s = 0x7B # r0" "skip_space r0 = t" "parse_members n t = Exhausted"
  | r0 t where "s = 0x5B # r0" "skip_space r0 = t" "parse_elements n t = Exhausted"
  using assms
  by (auto split: parse.splits list.splits if_splits option.splits prod.splits)

lemma parse_elements_Exhausted:
  assumes "parse_elements (Suc n) s = Exhausted"
  obtains "parse_value n s = Exhausted"
  | v r1 r' where "parse_value n s = Parsed v r1" "skip_space r1 = 0x2C # r'"
                  "parse_elements n (skip_space r') = Exhausted"
  using assms
  by (auto split: parse.splits list.splits if_splits)

lemma parse_members_Exhausted:
  assumes "parse_members (Suc n) s = Exhausted"
  obtains r0 k r1 r2 where "s = 0x22 # r0" "json_chars r0 = Some (k, r1)"
      "skip_space r1 = 0x3A # r2" "parse_value n (skip_space r2) = Exhausted"
  | r0 k r1 r2 v r3 r4 where "s = 0x22 # r0" "json_chars r0 = Some (k, r1)"
      "skip_space r1 = 0x3A # r2" "parse_value n (skip_space r2) = Parsed v r3"
      "skip_space r3 = 0x2C # r4" "parse_members n (skip_space r4) = Exhausted"
  using assms
  by (auto split: parse.splits list.splits if_splits option.splits prod.splits)

lemma parse_value_shorter: "parse_value n s = Parsed v r \<Longrightarrow> length r < length s"
  using parse_shorter by blast

lemma parse_fuel:
  "(2 * length s + 1 \<le> n \<longrightarrow> parse_value n s \<noteq> Exhausted)
   \<and> (2 * length s + 2 \<le> n \<longrightarrow> parse_elements n s \<noteq> Exhausted)
   \<and> (2 * length s + 2 \<le> n \<longrightarrow> parse_members n s \<noteq> Exhausted)"
proof (induction n arbitrary: s)
  case 0
  show ?case by simp
next
  case (Suc n)
  have val: "parse_value n t \<noteq> Exhausted" if "2 * length t + 1 \<le> n" for t
    using Suc that by blast
  have elems: "parse_elements n t \<noteq> Exhausted" if "2 * length t + 2 \<le> n" for t
    using Suc that by blast
  have membs: "parse_members n t \<noteq> Exhausted" if "2 * length t + 2 \<le> n" for t
    using Suc that by blast
  have 1: "parse_value (Suc n) s \<noteq> Exhausted" if b: "2 * length s + 1 \<le> Suc n"
  proof
    assume x: "parse_value (Suc n) s = Exhausted"
    show False
    proof (rule parse_value_Exhausted[OF x])
      fix r0 t
      assume a: "s = 0x7B # r0" "skip_space r0 = t" "parse_members n t = Exhausted"
      have "length t \<le> length r0" using a(2) skip_space_length by blast
      with a(1) b have "2 * length t + 2 \<le> n" by simp
      with membs a(3) show False by blast
    next
      fix r0 t
      assume a: "s = 0x5B # r0" "skip_space r0 = t" "parse_elements n t = Exhausted"
      have "length t \<le> length r0" using a(2) skip_space_length by blast
      with a(1) b have "2 * length t + 2 \<le> n" by simp
      with elems a(3) show False by blast
    qed
  qed
  have 2: "parse_elements (Suc n) s \<noteq> Exhausted" if b: "2 * length s + 2 \<le> Suc n"
  proof
    assume x: "parse_elements (Suc n) s = Exhausted"
    show False
    proof (rule parse_elements_Exhausted[OF x])
      assume "parse_value n s = Exhausted"
      moreover from b have "2 * length s + 1 \<le> n" by simp
      ultimately show False using val by blast
    next
      fix v r1 r'
      assume a: "parse_value n s = Parsed v r1" "skip_space r1 = 0x2C # r'"
        "parse_elements n (skip_space r') = Exhausted"
      have "length (skip_space r') \<le> length r'" by (rule skip_space_length)
      also have "\<dots> < length r1" using a(2) by (rule skip_space_Cons)
      also have "\<dots> < length s" using a(1) by (rule parse_value_shorter)
      finally have "2 * length (skip_space r') + 2 \<le> n" using b by simp
      with elems a(3) show False by blast
    qed
  qed
  have 3: "parse_members (Suc n) s \<noteq> Exhausted" if b: "2 * length s + 2 \<le> Suc n"
  proof
    assume x: "parse_members (Suc n) s = Exhausted"
    show False
    proof (rule parse_members_Exhausted[OF x])
      fix r0 k r1 r2
      assume a: "s = 0x22 # r0" "json_chars r0 = Some (k, r1)" "skip_space r1 = 0x3A # r2"
        "parse_value n (skip_space r2) = Exhausted"
      have "length (skip_space r2) \<le> length r2" by (rule skip_space_length)
      also have "\<dots> < length r1" using a(3) by (rule skip_space_Cons)
      also have "\<dots> < length r0" using a(2) by (rule json_chars_shorter)
      also have "\<dots> < length s" using a(1) by simp
      finally have "2 * length (skip_space r2) + 1 \<le> n" using b by simp
      with val a(4) show False by blast
    next
      fix r0 k r1 r2 v r3 r4
      assume a: "s = 0x22 # r0" "json_chars r0 = Some (k, r1)" "skip_space r1 = 0x3A # r2"
        "parse_value n (skip_space r2) = Parsed v r3" "skip_space r3 = 0x2C # r4"
        "parse_members n (skip_space r4) = Exhausted"
      have "length (skip_space r4) \<le> length r4" by (rule skip_space_length)
      also have "\<dots> < length r3" using a(5) by (rule skip_space_Cons)
      also have "\<dots> < length (skip_space r2)" using a(4) by (rule parse_value_shorter)
      also have "\<dots> \<le> length r2" by (rule skip_space_length)
      also have "\<dots> < length r1" using a(3) by (rule skip_space_Cons)
      also have "\<dots> < length r0" using a(2) by (rule json_chars_shorter)
      also have "\<dots> < length s" using a(1) by simp
      finally have "2 * length (skip_space r4) + 2 \<le> n" using b by simp
      with membs a(6) show False by blast
    qed
  qed
  from 1 2 3 show ?case by blast
qed

text \<open>The bound of \<open>JSON_parse\<close> is never exhausted: None is a syntax error.\<close>

lemma parse_value_fuel:
  "parse_value (2 * length text + 1) (skip_space text) \<noteq> Exhausted"
proof -
  have "2 * length (skip_space text) + 1 \<le> 2 * length text + 1"
    using skip_space_length[of "text"] by simp
  with parse_fuel show ?thesis by blast
qed

section \<open>No reply carries NaN\<close>

lemma parse_value_not_NaN: "parse_value n s = Parsed v r \<Longrightarrow> v \<noteq> JNum NaN"
proof (cases n)
  case 0
  assume "parse_value n s = Parsed v r"
  with 0 show ?thesis by simp
next
  case (Suc m)
  assume "parse_value n s = Parsed v r"
  with Suc show ?thesis
    by (auto simp: object_of_def split: list.splits if_splits parse.splits option.splits
             dest: json_number_not_NaN)
qed

lemma parse_members_values:
  "parse_members n s = Parsed kvs r \<Longrightarrow> JNum NaN \<notin> snd ` set kvs"
proof (induction n arbitrary: s kvs r)
  case 0
  then show ?case by simp
next
  case (Suc n)
  show ?case
  proof (rule parse_members_Suc_cases[OF Suc.prems])
    fix r0 k r1 r2 v r3
    assume "parse_value n (skip_space r2) = Parsed v r3" "kvs = [(k, v)]"
    then show ?thesis using parse_value_not_NaN by fastforce
  next
    fix r0 k r1 r2 v r3 r4 kvs'
    assume a: "parse_value n (skip_space r2) = Parsed v r3"
      "parse_members n (skip_space r4) = Parsed kvs' r" "kvs = (k, v) # kvs'"
    from a(1) have "v \<noteq> JNum NaN" by (rule parse_value_not_NaN)
    moreover from a(2) have "JNum NaN \<notin> snd ` set kvs'" by (rule Suc.IH)
    ultimately show ?thesis using a(3) by auto
  qed
qed

lemma put_property_set: "set (put_property kvs k v) \<subseteq> insert (k, v) (set kvs)"
  by (induction kvs) (auto split: if_splits)

lemma put_property_values: "snd ` set (put_property kvs k v) \<subseteq> insert v (snd ` set kvs)"
  using put_property_set[of kvs k v] by force

lemma foldl_put_property_values:
  "snd ` set (foldl (\<lambda>kvs (k, v). put_property kvs k v) acc members)
   \<subseteq> snd ` set acc \<union> snd ` set members"
proof (induction members arbitrary: acc)
  case Nil
  then show ?case by simp
next
  case (Cons m members)
  obtain k v where m: "m = (k, v)" by (cases m)
  have "snd ` set (foldl (\<lambda>kvs (k, v). put_property kvs k v) (put_property acc k v) members)
        \<subseteq> snd ` set (put_property acc k v) \<union> snd ` set members"
    by (rule Cons.IH)
  also have "\<dots> \<subseteq> snd ` set acc \<union> snd ` set (m # members)"
    using put_property_values[of acc k v] m by auto
  finally show ?case using m by simp
qed

lemma own_property_order_set: "set (own_property_order kvs) = set kvs"
  by (auto simp: own_property_order_def)

lemma get_object_of:
  "get (object_of members) k = JUndefined \<or> get (object_of members) k \<in> snd ` set members"
proof (cases "map_of (own_property_order
                        (foldl (\<lambda>kvs (k, v). put_property kvs k v) [] members)) k")
  case None
  then show ?thesis by (simp add: object_of_def)
next
  case (Some v)
  then have "(k, v) \<in> set (own_property_order
                             (foldl (\<lambda>kvs (k, v). put_property kvs k v) [] members))"
    by (rule map_of_SomeD)
  then have "(k, v) \<in> set (foldl (\<lambda>kvs (k, v). put_property kvs k v) [] members)"
    by (simp only: own_property_order_set)
  then have "v \<in> snd ` set (foldl (\<lambda>kvs (k, v). put_property kvs k v) [] members)"
    by force
  with foldl_put_property_values[of "[]" members] have "v \<in> snd ` set members" by auto
  with Some show ?thesis by (simp add: object_of_def)
qed

lemma parse_value_forms:
  assumes "parse_value (Suc n) s = Parsed v r"
  obtains "v = JObj []"
  | members t where "parse_members n t = Parsed members r" "v = object_of members"
  | "\<And>k. get v k = JUndefined"
  using assms
  by (auto split: list.splits if_splits parse.splits option.splits)

lemma parse_value_get: "parse_value n s = Parsed v r \<Longrightarrow> get v k \<noteq> JNum NaN"
proof (cases n)
  case 0
  assume "parse_value n s = Parsed v r"
  with 0 show ?thesis by simp
next
  case (Suc m)
  assume "parse_value n s = Parsed v r"
  with Suc have p: "parse_value (Suc m) s = Parsed v r" by simp
  show ?thesis
  proof (rule parse_value_forms[OF p])
    assume "v = JObj []"
    then show ?thesis by simp
  next
    fix members t
    assume a: "parse_members m t = Parsed members r" "v = object_of members"
    from a(1) have n: "JNum NaN \<notin> snd ` set members" by (rule parse_members_values)
    from get_object_of[of members k] a(2)
    have "get v k = JUndefined \<or> get v k \<in> snd ` set members" by simp
    then show ?thesis
    proof
      assume "get v k = JUndefined"
      then show ?thesis by simp
    next
      assume "get v k \<in> snd ` set members"
      with n show ?thesis by metis
    qed
  next
    assume "\<And>k. get v k = JUndefined"
    then show ?thesis by simp
  qed
qed

lemma JSON_parse_get:
  assumes "JSON_parse t = Some v"
  shows "get v k \<noteq> JNum NaN"
proof (cases "parse_value (2 * length t + 1) (skip_space t)")
  case (Parsed v' rest)
  with assms have "v' = v"
    unfolding JSON_parse_def by (simp del: parse_value.simps split: if_splits)
  with Parsed show ?thesis using parse_value_get by blast
next
  case SyntaxError
  with assms show ?thesis
    unfolding JSON_parse_def by (simp del: parse_value.simps)
next
  case Exhausted
  with assms show ?thesis
    unfolding JSON_parse_def by (simp del: parse_value.simps)
qed

lemma extractRouteFromText_confidence:
  "extractRouteFromText t = Some p \<Longrightarrow> confidence p \<noteq> JNum NaN"
  by (auto simp: extractRouteFromText_def Let_def split: option.splits if_splits)

lemma parse_reply_confidence:
  "parse_reply resultText cleanedText = Inr p \<Longrightarrow> confidence p \<noteq> JNum NaN"
  by (auto simp: parse_reply_def as_response_def split: option.splits if_splits
           dest: JSON_parse_get extractRouteFromText_confidence)


section \<open>The confidence of a result\<close>

lemma validate_confidence_value:
  "validate_response parsed = Inr valid \<Longrightarrow>
   confidence valid =
     (case confidence parsed of
        JNum (Fin c) \<Rightarrow> if 0 \<le> c \<and> c \<le> 1 then JNum (Fin c) else JNum (Fin (1 / 2))
      | JNum NaN \<Rightarrow> JNum NaN
      | _ \<Rightarrow> JNum (Fin (1 / 2)))"
  by (auto simp: validate_response_def Let_def split: if_splits jsvalue.splits jsnum.splits)

lemma in_unit_const:
  "0 \<le> a \<Longrightarrow> a \<le> 1 \<Longrightarrow> x = JNum (Fin a) \<Longrightarrow> \<exists>c. x = JNum (Fin c) \<and> 0 \<le> c \<and> c \<le> 1"
  by blast

lemma validate_confidence_range:
  assumes "validate_response p = Inr v" and "confidence p \<noteq> JNum NaN"
  shows "\<exists>c. confidence v = JNum (Fin c) \<and> 0 \<le> c \<and> c \<le> 1"
proof -
  note e = validate_confidence_value[OF assms(1)]
  have h: "\<exists>c. confidence v = JNum (Fin c) \<and> 0 \<le> c \<and> c \<le> 1"
    if "confidence v = JNum (Fin (1 / 2))"
    using that by (intro in_unit_const[of "1 / 2"]) simp_all
  show ?thesis
  proof (cases "confidence p")
    case (JNum n)
    show ?thesis
    proof (cases n)
      case (Fin c)
      show ?thesis
      proof (cases "0 \<le> c \<and> c \<le> 1")
        case True
        with e JNum Fin have "confidence v = JNum (Fin c)" by simp
        with True show ?thesis by blast
      next
        case False
        with e JNum Fin have "confidence v = JNum (Fin (1 / 2))" by simp
        then show ?thesis by (rule h)
      qed
    next
      case NaN
      with JNum assms(2) show ?thesis by simp
    next
      case PosInf
      with e JNum have "confidence v = JNum (Fin (1 / 2))" by simp
      then show ?thesis by (rule h)
    next
      case NegInf
      with e JNum have "confidence v = JNum (Fin (1 / 2))" by simp
      then show ?thesis by (rule h)
    qed
  next
    case JUndefined
    with e have "confidence v = JNum (Fin (1 / 2))" by simp
    then show ?thesis by (rule h)
  next
    case JNull
    with e have "confidence v = JNum (Fin (1 / 2))" by simp
    then show ?thesis by (rule h)
  next
    case (JBool b)
    with e have "confidence v = JNum (Fin (1 / 2))" by simp
    then show ?thesis by (rule h)
  next
    case (JStr x)
    with e have "confidence v = JNum (Fin (1 / 2))" by simp
    then show ?thesis by (rule h)
  next
    case (JArr x)
    with e have "confidence v = JNum (Fin (1 / 2))" by simp
    then show ?thesis by (rule h)
  next
    case (JObj x)
    with e have "confidence v = JNum (Fin (1 / 2))" by simp
    then show ?thesis by (rule h)
  qed
qed

lemma normalizeRouteResponse_keeps:
  "normalizeRouteResponse x = Some y \<Longrightarrow>
   confidence y = confidence x \<and> route_type y = route_type x \<and> summary y = summary x"
  by (auto simp: normalizeRouteResponse_def Let_def split: if_splits option.splits)

lemma inferRouteFromText_confidence:
  "inferRouteFromText content = Some h \<Longrightarrow> confidence h = JNum (Fin (4 / 10))"
  by (auto simp: inferRouteFromText_def Let_def split: if_splits)

lemma finish_route_confidence:
  assumes "finish_route content t = Inr r"
  shows "\<exists>c. confidence r = JNum (Fin c) \<and> 0 \<le> c \<and> c \<le> 1"
proof -
  from assms obtain parsed valid normalized where
    p: "parse_reply (str_trim t) (strip_fences (str_trim t)) = Inr parsed" and
    v: "validate_response parsed = Inr valid" and
    n: "normalizeRouteResponse valid = Some normalized" and
    r: "r = normalized \<or> (\<exists>h. inferRouteFromText content = Some h
                                \<and> normalizeRouteResponse h = Some r)"
    by (auto simp: finish_route_def Let_def split: sum.splits option.splits if_splits)
  from r show ?thesis
  proof
    assume "r = normalized"
    with validate_confidence_range[OF v parse_reply_confidence[OF p]]
      normalizeRouteResponse_keeps[OF n]
    show ?thesis by simp
  next
    assume "\<exists>h. inferRouteFromText content = Some h \<and> normalizeRouteResponse h = Some r"
    then obtain h where "inferRouteFromText content = Some h" "normalizeRouteResponse h = Some r"
      by blast
    with inferRouteFromText_confidence normalizeRouteResponse_keeps
    have "confidence r = JNum (Fin (4 / 10))" by metis
    then show ?thesis by (intro in_unit_const[of "4 / 10"]) simp_all
  qed
qed

lemma route_attempt_Inr:
  "route_attempt gen s attempt content = (Inr r, s') \<Longrightarrow> \<exists>t. finish_route content t = Inr r"
  by (auto simp: route_attempt_def split: prod.splits adapter_reply.splits)

lemma routeContent_loop_result_aux:
  assumes a: "\<And>t r. finish_route content t = Inr r \<Longrightarrow> P r"
      and f: "\<And>e. P (failure_result e)"
  shows "maxRetries + 2 - attempt = k \<Longrightarrow>
         P (fst (routeContent_loop gen content maxRetries attempt lastError s))"
proof (induction k arbitrary: attempt lastError s)
  case 0
  then have "\<not> attempt \<le> maxRetries + 1" by simp
  then have "routeContent_loop gen content maxRetries attempt lastError s
             = (failure_result lastError, s)"
    by (subst routeContent_loop.simps) simp
  with f show ?case by simp
next
  case (Suc k)
  then have le: "attempt \<le> maxRetries + 1" and m: "maxRetries + 2 - (attempt + 1) = k"
    by simp_all
  obtain x s1 where x: "route_attempt gen s attempt content = (x, s1)"
    by (cases "route_attempt gen s attempt content")
  show ?case
  proof (cases x)
    case (Inl message)
    with x le have "routeContent_loop gen content maxRetries attempt lastError s
                    = routeContent_loop gen content maxRetries (attempt + 1) (Some message) s1"
      by (subst routeContent_loop.simps) simp
    with Suc.IH[OF m] show ?thesis by simp
  next
    case (Inr r)
    with x le have "routeContent_loop gen content maxRetries attempt lastError s = (r, s1)"
      by (subst routeContent_loop.simps) simp
    moreover have "P r"
    proof -
      from x Inr have "route_attempt gen s attempt content = (Inr r, s1)" by simp
      then have "\<exists>t. finish_route content t = Inr r"
        by (rule route_attempt_Inr)
      then obtain t where "finish_route content t = Inr r" ..
      then show ?thesis by (rule a)
    qed
    ultimately show ?thesis by simp
  qed
qed

lemma routeContent_result:
  assumes "\<And>t r. finish_route content t = Inr r \<Longrightarrow> P r"
      and "\<And>e. P (failure_result e)"
  shows "P (fst (routeContent gen s content maxRetries))"
  unfolding routeContent_def
  using routeContent_loop_result_aux[of content P maxRetries 1 "maxRetries + 1", OF assms]
  by simp

text \<open>
  Claim C3, as the code has it. The validation does not clamp: it keeps a confidence
  that is a number from 0 to 1 and puts 0.5 in the place of any other value, a missing
  or non-numeric one as well as a negative one or one above 1. A reply cannot make the
  parsed confidence NaN: JSON has no such literal, and the third tier puts 0.5 in the
  place of a number that is not finite. So the confidence of every result that
  \<open>routeContent\<close> returns is a number from 0 to 1.
\<close>

theorem routeContent_confidence_range:
  "(\<exists>c. confidence (fst (routeContent gen s content maxRetries)) = JNum (Fin c)
         \<and> 0 \<le> c \<and> c \<le> 1)
   \<and> (validate_response parsed = Inr valid \<longrightarrow>
        confidence valid =
          (case confidence parsed of
             JNum (Fin c) \<Rightarrow> if 0 \<le> c \<and> c \<le> 1 then JNum (Fin c) else JNum (Fin (1 / 2))
           | JNum NaN \<Rightarrow> JNum NaN
           | _ \<Rightarrow> JNum (Fin (1 / 2))))"
proof -
  have 1: "\<exists>c. confidence (fst (routeContent gen s content maxRetries)) = JNum (Fin c)
               \<and> 0 \<le> c \<and> c \<le> 1"
  proof (rule routeContent_result[where P = "\<lambda>r. \<exists>c. confidence r = JNum (Fin c) \<and> 0 \<le> c \<and> c \<le> 1"])
    fix t r
    assume "finish_route content t = Inr r"
    then show "\<exists>c. confidence r = JNum (Fin c) \<and> 0 \<le> c \<and> c \<le> 1"
      by (rule finish_route_confidence)
  next
    fix e
    show "\<exists>c. confidence (failure_result e) = JNum (Fin c) \<and> 0 \<le> c \<and> c \<le> 1"
      by (intro in_unit_const[of 0]) (simp_all add: failure_result_def)
  qed
  have 2: "validate_response parsed = Inr valid \<longrightarrow>
        confidence valid =
          (case confidence parsed of
             JNum (Fin c) \<Rightarrow> if 0 \<le> c \<and> c \<le> 1 then JNum (Fin c) else JNum (Fin (1 / 2))
           | JNum NaN \<Rightarrow> JNum NaN
           | _ \<Rightarrow> JNum (Fin (1 / 2)))"
    using validate_confidence_value by blast
  from 1 2 show ?thesis by blast
qed

text \<open>The theorem at a reply whose confidence is 1.5: the validation makes it 0.5.\<close>

theorem routeContent_confidence_range_witness:
  "validate_response parsed_overconfident = Inr (parsed_overconfident\<lparr>confidence := JNum (Fin (1 / 2))\<rparr>)
   \<and> confidence (fst (routeContent (adapter_answering reply_overconfident) 0 text_hello 2))
       = JNum (Fin (1 / 2))"
proof -
  have v: "validate_response parsed_overconfident
           = Inr (parsed_overconfident\<lparr>confidence := JNum (Fin (1 / 2))\<rparr>)"
    by code_simp
  have c: "confidence (fst (routeContent (adapter_answering reply_overconfident) 0 text_hello 2))
           = JNum (Fin (1 / 2))"
    by code_simp
  from routeContent_confidence_range[of "adapter_answering reply_overconfident" 0 text_hello 2
         parsed_overconfident "parsed_overconfident\<lparr>confidence := JNum (Fin (1 / 2))\<rparr>"] v c
  show ?thesis by simp
qed

text \<open>
  The claim as the specification states it (the confidence is clamped into the interval)
  fails at that reply: clamping 1.5 gives 1, the code gives 0.5.
\<close>

theorem routeContent_confidence_clamp_counterexample:
  "confidence (fst (routeContent (adapter_answering reply_overconfident) 0 text_hello 2))
   \<noteq> JNum (Fin (spec_clamp (15 / 10)))"
  by code_simp


section \<open>The shape of the payload of a result\<close>

lemma js_or_default_truthy: "truthy b \<Longrightarrow> truthy (js_or a b)"
  by (simp add: js_or_def)

lemma js_coalesce_not_nullish: "\<not> nullish b \<Longrightarrow> \<not> nullish (js_coalesce a b)"
  by (simp add: js_coalesce_def)

lemma category_labels_nonempty: "\<forall>category \<in> set categories. fst category \<noteq> []"
  by (simp add: categories_def)

lemma inferTodoCategoryFromText_nonempty: "inferTodoCategoryFromText s \<noteq> []"
proof (cases "find (\<lambda>category. list_ex (\<lambda>keyword. str_includes (clean_text s) keyword) (snd category))
                categories")
  case None
  then show ?thesis
    by (simp add: inferTodoCategoryFromText_def Let_def zh_uncategorized_def)
next
  case (Some category)
  then have "category \<in> set categories"
    by (auto simp: find_Some_iff)
  with category_labels_nonempty have "fst category \<noteq> []" by blast
  with Some show ?thesis
    by (simp add: inferTodoCategoryFromText_def Let_def zh_uncategorized_def)
qed

lemma normalize_finance_shape:
  assumes "route_type x = JStr (ascii ''finance'')" "normalizeRouteResponse x = Some y"
  shows "finance_shape (data y)"
proof -
  have "truthy (JStr zh_other)" by (simp add: zh_other_def)
  then have c: "truthy (js_or (get (data x) (ascii ''category'')) (JStr zh_other))"
    by (rule js_or_default_truthy)
  have a: "\<not> nullish (js_coalesce (get (data x) (ascii ''amount'')) (JNum (Fin 0)))"
    by (rule js_coalesce_not_nullish) (simp add: nullish_def)
  from assms a c show ?thesis
    by (auto simp: normalizeRouteResponse_def Let_def finance_shape_def ascii_eq_iff)
qed

lemma normalize_inventory_shape:
  assumes "route_type x = JStr (ascii ''inventory'')" "normalizeRouteResponse x = Some y"
  shows "inventory_shape (data y)"
proof -
  have n: "truthy (js_or (js_or (get (data x) (ascii ''name'')) (summary x)) (JStr zh_unnamed_item))"
    by (rule js_or_default_truthy) (simp add: zh_unnamed_item_def)
  have c: "truthy (js_or (get (data x) (ascii ''category'')) (JStr zh_other))"
    by (rule js_or_default_truthy) (simp add: zh_other_def)
  have z: "truthy (js_or (get (data x) (ascii ''storage_zone'')) (JStr (ascii ''Other'')))"
    by (rule js_or_default_truthy) (simp add: ascii_def)
  have u: "truthy (js_or (get (data x) (ascii ''unit'')) (JStr zh_ge))"
    by (rule js_or_default_truthy) (simp add: zh_ge_def)
  from assms n c z u show ?thesis
    by (auto simp: normalizeRouteResponse_def Let_def inventory_shape_def ascii_eq_iff)
qed

lemma normalize_todo_shape:
  assumes "route_type x = JStr (ascii ''todo'')" "normalizeRouteResponse x = Some y"
  shows "todo_shape (data y)"
proof -
  let ?d = "data x"
  from assms obtain pv tt dt where
    pv: "ToNumber (get ?d (ascii ''priority'')) = Some pv" and
    tt: "ToString (js_or (get ?d (ascii ''title'')) (JStr [])) = Some tt" and
    dt: "ToString (js_or (get ?d (ascii ''description'')) (JStr [])) = Some dt"
    by (auto simp: normalizeRouteResponse_def Let_def ascii_eq_iff split: option.splits)
  define rc where "rc = inferTodoCategoryFromText (str_trim (tt @ 0x20 # dt))"
  define pr where "pr = (if isFiniteNumber (JNum pv) \<and> num_le (Fin 1) pv \<and> num_le pv (Fin 3)
                                then pv else Fin 2)"
  define cat where "cat = (if rc \<noteq> zh_uncategorized then JStr rc
                              else js_or (get ?d (ascii ''category'')) (JStr rc))"
  have rc: "rc \<noteq> []" by (simp add: rc_def inferTodoCategoryFromText_nonempty)
  have cat: "truthy cat"
  proof (cases "rc \<noteq> zh_uncategorized")
    case True
    with rc show ?thesis by (simp add: cat_def)
  next
    case False
    have "truthy (js_or (get ?d (ascii ''category'')) (JStr rc))"
      by (rule js_or_default_truthy) (simp add: rc)
    with False show ?thesis by (simp add: cat_def)
  qed
  have pr: "case pr of Fin p \<Rightarrow> 1 \<le> p \<and> p \<le> 3 | _ \<Rightarrow> False"
    by (cases pv) (auto simp: pr_def)
  have t: "truthy (js_or (js_or (get ?d (ascii ''title'')) (summary x)) (JStr zh_unnamed_task))"
    by (rule js_or_default_truthy) (simp add: zh_unnamed_task_def)
  have ty: "truthy (js_or (get ?d (ascii ''type'')) (JStr (ascii ''Todo'')))"
    by (rule js_or_default_truthy) (simp add: ascii_def)
  from assms pv tt dt have y: "data y = JObj
      [(ascii ''title'', js_or (js_or (get ?d (ascii ''title'')) (summary x)) (JStr zh_unnamed_task)),
       (ascii ''description'', get ?d (ascii ''description'')),
       (ascii ''type'', js_or (get ?d (ascii ''type'')) (JStr (ascii ''Todo''))),
       (ascii ''priority'', JNum pr),
       (ascii ''due_date'', get ?d (ascii ''due_date'')),
       (ascii ''remind_at'', get ?d (ascii ''remind_at'')),
       (ascii ''repeat_rule'', get ?d (ascii ''repeat_rule'')),
       (ascii ''repeat_interval'', get ?d (ascii ''repeat_interval'')),
       (ascii ''category'', cat)]"
    by (auto simp: normalizeRouteResponse_def Let_def ascii_eq_iff rc_def pr_def cat_def)
  show ?thesis
    unfolding y using t ty pr cat
    by (simp add: todo_shape_def ascii_eq_iff split: jsnum.splits)
qed

lemma normalizeRouteResponse_shape:
  assumes "normalizeRouteResponse x = Some y"
  shows "payload_shape y"
proof -
  from assms have r: "route_type y = route_type x"
    by (simp add: normalizeRouteResponse_keeps)
  show ?thesis
    unfolding payload_shape_def r
    using assms normalize_finance_shape normalize_todo_shape normalize_inventory_shape
    by blast
qed

lemma validate_response_route:
  "validate_response p = Inr v \<Longrightarrow> route_type v \<in> set legal_routes"
  by (auto simp: validate_response_def Let_def legal_routes_def split: if_splits)

lemma inferRouteFromText_route:
  "inferRouteFromText content = Some h \<Longrightarrow> route_type h \<in> set legal_routes"
  by (auto simp: inferRouteFromText_def Let_def legal_routes_def split: if_splits)

lemma finish_route_shape:
  assumes "finish_route content t = Inr r"
  shows "route_type r \<in> set legal_routes \<and> payload_shape r"
proof -
  from assms obtain parsed valid normalized where
    v: "validate_response parsed = Inr valid" and
    n: "normalizeRouteResponse valid = Some normalized" and
    r: "r = normalized \<or> (\<exists>h. inferRouteFromText content = Some h
                                \<and> normalizeRouteResponse h = Some r)"
    by (auto simp: finish_route_def Let_def split: sum.splits option.splits if_splits)
  from r show ?thesis
  proof
    assume "r = normalized"
    with validate_response_route[OF v] normalizeRouteResponse_keeps[OF n]
      normalizeRouteResponse_shape[OF n]
    show ?thesis by simp
  next
    assume "\<exists>h. inferRouteFromText content = Some h \<and> normalizeRouteResponse h = Some r"
    then obtain h where h: "inferRouteFromText content = Some h" "normalizeRouteResponse h = Some r"
      by blast
    with inferRouteFromText_route[OF h(1)] normalizeRouteResponse_keeps[OF h(2)]
      normalizeRouteResponse_shape[OF h(2)]
    show ?thesis by simp
  qed
qed

lemma failure_result_shape:
  "route_type (failure_result e) \<in> set legal_routes \<and> payload_shape (failure_result e)"
  by (simp add: failure_result_def legal_routes_def payload_shape_def ascii_eq_iff)

lemma routeContent_shape:
  "route_type (fst (routeContent gen s content maxRetries)) \<in> set legal_routes
   \<and> payload_shape (fst (routeContent gen s content maxRetries))"
  by (rule routeContent_result[where P = "\<lambda>r. route_type r \<in> set legal_routes \<and> payload_shape r"])
     (simp_all add: finish_route_shape failure_result_shape)

lemma those_all_map:
  "those_all (map f xs) = Some ys \<Longrightarrow> \<forall>y \<in> set ys. \<exists>x \<in> set xs. f x = Some y"
proof (induction xs arbitrary: ys)
  case Nil
  then show ?case by simp
next
  case (Cons x xs)
  then show ?case
    by (cases "f x"; cases "those_all (map f xs)") auto
qed

lemma batch_items_shape:
  assumes "batch_items t = Some items"
  shows "\<forall>r \<in> set items. payload_shape r"
proof -
  from assms obtain xs where
    "those_all (map (\<lambda>item. normalizeRouteResponse (as_response item)) xs) = Some items"
    by (auto simp: batch_items_def Let_def split: option.splits if_splits)
  from those_all_map[OF this] normalizeRouteResponse_shape show ?thesis by blast
qed

lemma batch_attempt_shape:
  "batch_attempt gen s attempt content = (Some items, s') \<Longrightarrow> \<forall>r \<in> set items. payload_shape r"
  by (auto simp: batch_attempt_def split: prod.splits adapter_reply.splits option.splits list.splits
           dest: batch_items_shape)

lemma routeContentBatch_loop_shape:
  "maxRetries + 2 - attempt = k \<Longrightarrow>
   \<forall>r \<in> set (fst (routeContentBatch_loop gen content maxRetries attempt s)). payload_shape r"
proof (induction k arbitrary: attempt s)
  case 0
  then have "\<not> attempt \<le> maxRetries + 1" by simp
  then show ?case by (simp add: routeContentBatch_loop_fallback routeContent_shape)
next
  case (Suc k)
  then have le: "attempt \<le> maxRetries + 1" and m: "maxRetries + 2 - (attempt + 1) = k"
    by simp_all
  obtain x s1 where a: "batch_attempt gen s attempt content = (x, s1)"
    by (cases "batch_attempt gen s attempt content")
  show ?case
  proof (cases x)
    case None
    then have "routeContentBatch_loop gen content maxRetries attempt s
               = routeContentBatch_loop gen content maxRetries (attempt + 1) s1"
      using a by (simp add: routeContentBatch_loop_step[OF le])
    with Suc.IH[OF m, of s1] show ?thesis by simp
  next
    case (Some items)
    with a have "\<forall>r \<in> set items. payload_shape r" by (simp add: batch_attempt_shape)
    moreover have "routeContentBatch_loop gen content maxRetries attempt s = (items, s1)"
      using a Some by (simp add: routeContentBatch_loop_step[OF le])
    ultimately show ?thesis by simp
  qed
qed

lemma shape_not_nullish:
  assumes "route_type r \<in> set legal_routes" "payload_shape r" "nullish (data r)"
  shows "route_type r = JStr (ascii ''unknown'')"
  using assms
  by (auto simp: legal_routes_def payload_shape_def finance_shape_def todo_shape_def
        inventory_shape_def nullish_def)

text \<open>
  Claim C2, as the code has it. The route of a result of \<open>routeContent\<close> is one of the
  four legal values, and when it is finance, todo or inventory the payload is an object
  with exactly the properties of that route, the defaulted ones not empty; so a result
  without payload is Unknown. The converse does not hold: the normalizer returns an
  Unknown result as it is, with the payload that the reply carried. Each element that
  \<open>routeContentBatch\<close> returns has the payload of its route as well when the route is
  one of the three; its route is not validated and may be any non-empty value.
\<close>

theorem route_payload_shape:
  "route_type (fst (routeContent gen s content maxRetries)) \<in> set legal_routes
   \<and> payload_shape (fst (routeContent gen s content maxRetries))
   \<and> (nullish (data (fst (routeContent gen s content maxRetries))) \<longrightarrow>
        route_type (fst (routeContent gen s content maxRetries)) = JStr (ascii ''unknown''))
   \<and> (\<forall>r \<in> set (fst (routeContentBatch gen s content maxRetries)). payload_shape r)"
proof -
  have b: "\<forall>r \<in> set (fst (routeContentBatch gen s content maxRetries)). payload_shape r"
    unfolding routeContentBatch_def
    by (rule routeContentBatch_loop_shape) (rule refl)
  from routeContent_shape[of gen s content maxRetries] shape_not_nullish b
  show ?thesis by blast
qed

text \<open>
  The theorem at three runs: a reply of bare fields, from which \<open>routeContent\<close> makes a
  todo result; an adapter that always fails, which gives a result without payload; and
  \<open>routeContentBatch\<close> on the reply of bare fields, whose one element is the todo result
  of the fallback.
\<close>

theorem route_payload_shape_witness:
  "route_type (fst (routeContent (adapter_answering reply_fields_only) 0 text_hello 2))
     = JStr (ascii ''todo'')
   \<and> todo_shape (data (fst (routeContent (adapter_answering reply_fields_only) 0 text_hello 2)))
   \<and> nullish (data (fst (routeContent adapter_down 0 text_hello 2)))
   \<and> route_type (fst (routeContent adapter_down 0 text_hello 2)) = JStr (ascii ''unknown'')
   \<and> route_type (hd (fst (routeContentBatch (adapter_answering reply_fields_only) 0 text_hello 1)))
       = JStr (ascii ''todo'')
   \<and> todo_shape
        (data (hd (fst (routeContentBatch (adapter_answering reply_fields_only) 0 text_hello 1))))"
proof -
  let ?a = "adapter_answering reply_fields_only"
  have 1: "route_type (fst (routeContent ?a 0 text_hello 2)) = JStr (ascii ''todo'')"
    by code_simp
  have 2: "nullish (data (fst (routeContent adapter_down 0 text_hello 2)))"
    by code_simp
  have 3: "fst (routeContentBatch ?a 0 text_hello 1) \<noteq> []
           \<and> route_type (hd (fst (routeContentBatch ?a 0 text_hello 1))) = JStr (ascii ''todo'')"
    by code_simp
  note t1 = route_payload_shape[of ?a 0 text_hello 2]
  note t2 = route_payload_shape[of adapter_down 0 text_hello 2]
  note t3 = route_payload_shape[of ?a 0 text_hello 1]
  from t1 1 have a: "todo_shape (data (fst (routeContent ?a 0 text_hello 2)))"
    by (simp add: payload_shape_def)
  from t2 2 have b: "route_type (fst (routeContent adapter_down 0 text_hello 2))
                     = JStr (ascii ''unknown'')"
    by blast
  from 3 have "hd (fst (routeContentBatch ?a 0 text_hello 1))
               \<in> set (fst (routeContentBatch ?a 0 text_hello 1))"
    by simp
  with t3 have "payload_shape (hd (fst (routeContentBatch ?a 0 text_hello 1)))"
    by blast
  with 3 have c: "todo_shape (data (hd (fst (routeContentBatch ?a 0 text_hello 1))))"
    by (simp add: payload_shape_def)
  from 1 2 3 a b c show ?thesis by simp
qed

text \<open>
  The claim as the specification states it (no payload exactly when the route is
  Unknown) fails at a reply with the route unknown and a payload, for a text on which
  the heuristic has no guess: the result is Unknown and keeps the payload.
\<close>

theorem route_payload_shape_counterexample:
  "route_type (fst (routeContent (adapter_answering reply_unknown_with_data) 0 text_hello 2))
     = JStr (ascii ''unknown'')
   \<and> data (fst (routeContent (adapter_answering reply_unknown_with_data) 0 text_hello 2))
       = JObj [(ascii ''k'', JNum (Fin 1))]"
  by code_simp


end
